theory Spec2Isabelle
  imports Main "HOL-Library.Word"
begin

section \<open>The letter histogram of \<open>parallel.c\<close>\<close>

text \<open>
  \<open>parallel.c\<close> starts one worker process per command-line argument. A worker reads its
  file, computes a 26-bucket letter histogram with \<open>Histogram\<close> and sends it through a pipe
  to the parent, whose \<open>SIGCHLD\<close> handler \<open>sigchld\<close> stores it in a file.

  Conventions of the model:
  \<^item> a C \<open>char\<close> is a byte (\<open>8 word\<close>), a C \<open>int\<close> is a \<open>32 word\<close> read with \<open>sint\<close>;
  \<^item> an outcome of the environment on which the source branches (the result of
    \<open>malloc\<close>, \<open>open\<close>, \<open>pipe\<close>, \<open>fork\<close>, \<open>read\<close>, \<open>waitpid\<close>) is a parameter of
    the function that makes the call; a call whose result the source ignores is taken to
    succeed;
  \<^item> an error return of the source is a value of the result type.
\<close>

type_synonym byte = "8 word"
type_synonym cint = "32 word"

subsection \<open>Character classification in the C locale\<close>

text \<open>
  The program never calls \<open>setlocale\<close>, so \<open>isalpha\<close> and \<open>tolower\<close> work in the "C"
  locale: the alphabetic characters are exactly \<open>A\<close>..\<open>Z\<close> (65..90) and \<open>a\<close>..\<open>z\<close>
  (97..122). No byte from 128 on is alphabetic, whether \<open>char\<close> is signed or not.
\<close>

definition isupper :: "byte \<Rightarrow> bool" where
  "isupper c \<longleftrightarrow> 65 \<le> unat c \<and> unat c \<le> 90"

definition islower :: "byte \<Rightarrow> bool" where
  "islower c \<longleftrightarrow> 97 \<le> unat c \<and> unat c \<le> 122"

definition isalpha :: "byte \<Rightarrow> bool" where
  "isalpha c \<longleftrightarrow> isupper c \<or> islower c"

definition tolower :: "byte \<Rightarrow> byte" where
  "tolower c = (if isupper c then c + 32 else c)"

definition toupper :: "byte \<Rightarrow> byte" where
  "toupper c = (if islower c then c - 32 else c)"

subsection \<open>\<open>Histogram\<close> (lines 98 to 118)\<close>

text \<open>
  \<open>Alloc_failed\<close> is the \<open>NULL\<close> that \<open>Histogram\<close> returns when \<open>malloc\<close> fails.
  \<open>Out_of_bounds\<close> marks a read of \<open>Data[i]\<close> past the end of the buffer, which C leaves
  undefined; it can only happen when \<open>Size\<close> exceeds the length of the buffer.
\<close>

datatype fault = Alloc_failed | Out_of_bounds

text \<open>The body of the counting loop (lines 110 to 114) for one byte \<open>c\<close>.\<close>

definition count_byte :: "byte \<Rightarrow> cint list \<Rightarrow> cint list" where
  "count_byte c histogram =
     (if isalpha c
      then (let k = unat (tolower c) - 97 in histogram[k := histogram ! k + 1])
      else histogram)"

text \<open>
  The loop \<open>for (int i = 0; i < Size; i++)\<close> of line 109, entered at index \<open>i\<close>. The
  index and the bound are C ints; the increment is the wrapping one of \<open>32 word\<close>.
\<close>

function count_loop :: "byte list \<Rightarrow> cint \<Rightarrow> cint \<Rightarrow> cint list \<Rightarrow> fault + cint list" where
  "count_loop Data Size i histogram =
     (if sint i < sint Size then
        (if 0 \<le> sint i \<and> nat (sint i) < length Data
         then count_loop Data Size (i + 1) (count_byte (Data ! nat (sint i)) histogram)
         else Inl Out_of_bounds)
      else Inr histogram)"
  by pat_completeness auto
termination
proof (relation "measure (\<lambda>(Data, Size, i, histogram). nat (sint Size - sint i))")
  fix Data :: "byte list" and Size i :: cint and histogram :: "cint list"
  assume lt: "sint i < sint Size"
  have "sint Size < 2 ^ 31" using sint_lt [of Size] by simp
  moreover have "- (2 ^ 31) \<le> sint i" using sint_ge [of i] by simp
  ultimately have "sint (i + 1) = sint i + 1" using lt
    by (simp add: sint_word_ariths signed_take_bit_int_eq_self)
  with lt show "((Data, Size, i + 1, count_byte (Data ! nat (sint i)) histogram),
        Data, Size, i, histogram) \<in> measure (\<lambda>(Data, Size, i, histogram). nat (sint Size - sint i))"
    by simp
qed simp

text \<open>
  \<open>Histogram malloc_ok Data Size\<close>: \<open>malloc_ok\<close> tells whether the \<open>malloc\<close> of line 99
  returns a block. The table starts as 26 zeros (line 106).
\<close>

definition Histogram :: "bool \<Rightarrow> byte list \<Rightarrow> cint \<Rightarrow> fault + cint list" where
  "Histogram malloc_ok Data Size =
     (if \<not> malloc_ok then Inl Alloc_failed
      else count_loop Data Size 0 (replicate 26 0))"

subsection \<open>What the claims say about \<open>Histogram\<close>\<close>

text \<open>
  \<open>letter_count Data i\<close> is the number of bytes of \<open>Data\<close> that are the letter
  \<open>'a' + i\<close> in lower or in upper case.
\<close>

definition letter_count :: "byte list \<Rightarrow> nat \<Rightarrow> nat" where
  "letter_count Data i = length (filter (\<lambda>c. unat c = 97 + i \<or> unat c = 65 + i) Data)"

text \<open>The same letter in the other case; a byte that is no letter stays as it is.\<close>

definition other_case :: "byte \<Rightarrow> byte" where
  "other_case c = (if isupper c then tolower c else toupper c)"

section \<open>The processes of \<open>parallel.c\<close>\<close>

text \<open>
  Every process of the program runs the same \<open>main\<close>; which branch it takes after
  \<open>fork\<close> tells the parent from the child. A process is modelled by the values of the
  globals it reads and writes, the files of the working directory, and the list of the
  system calls and messages it has made so far. The two ends of pipe \<open>k\<close>,
  \<open>pipes[k][0]\<close> and \<open>pipes[k][1]\<close>, are named by the index \<open>k\<close>; descriptor numbers
  are not modelled. The counters and pids are C ints that count at most \<open>MAX_FILES\<close>
  children per process, so they are modelled by \<open>int\<close>.
\<close>

definition MAX_FILES :: nat where
  "MAX_FILES = 100"

definition EXIT_FAILURE :: int where
  "EXIT_FAILURE = 1"

subsection \<open>Formatting\<close>

text \<open>\<open>show_int\<close> is what \<open>%d\<close> prints.\<close>

fun show_nat :: "nat \<Rightarrow> string" where
  "show_nat n =
     (if n < 10 then [''0123456789'' ! n]
      else show_nat (n div 10) @ [''0123456789'' ! (n mod 10)])"

declare show_nat.simps [simp del]

definition show_int :: "int \<Rightarrow> string" where
  "show_int n = (if n < 0 then CHR ''-'' # show_nat (nat (- n)) else show_nat (nat n))"

subsection \<open>The state of a process\<close>

text \<open>
  \<open>Printf\<close> is a message on standard output, \<open>Stderr\<close> one on standard error (for
  \<open>perror\<close>, the text given to it). \<open>Open_input\<close> is the \<open>open\<close> of line 161 and
  \<open>Read_input\<close> stands for lines 176 to 178, which load the file once its buffer is
  allocated. \<open>Write_pipe k h\<close> is the \<open>write\<close> of line 183 with the table \<open>h\<close>;
  \<open>Read_pipe k\<close> is the \<open>read\<close> of line 55.
\<close>

datatype event =
    Printf string
  | Stderr string
  | Sigaction_SIGCHLD
  | Signal_SIGCHLD
  | Pipe nat
  | Fork
  | Close_read nat
  | Close_write nat
  | Open_input string
  | Read_input string
  | Write_pipe nat "cint list"
  | Sleep nat
  | Kill_SIGINT int
  | Read_pipe nat

record proc =
  pids :: "int list"
  numChildren :: int
  numTerminated :: int
  files :: "string \<rightharpoonup> string"
  trace :: "event list"

text \<open>
  How far a piece of code gets: it runs to its end (\<open>Continues\<close>), it calls \<open>exit\<close> or
  returns from \<open>main\<close> with a status (\<open>Exits\<close>), or a signal ends the process.
\<close>

datatype outcome = Continues proc | Exits int proc | Killed_by_signal proc

definition log :: "event list \<Rightarrow> proc \<Rightarrow> proc" where
  "log es s = s\<lparr>trace := trace s @ es\<rparr>"

subsection \<open>The handler \<open>sigchld\<close> (lines 29 to 90)\<close>

text \<open>
  One pass of the loop of line 37 is determined by what its calls return: \<open>waitpid\<close>
  gives the pid and the status of a terminated child (without \<open>WUNTRACED\<close> a reported
  child has exited or was killed by a signal); \<open>read\<close> (line 55) gives \<open>bytesRead\<close> and
  leaves \<open>characterCounts\<close> with the 26 ints given here; \<open>open\<close> (line 61) succeeds or
  not.
\<close>

datatype wstatus = Exited int | Signaled int

record reaped =
  child_pid :: int
  child_status :: wstatus
  bytesRead :: int
  characterCounts :: "cint list"
  open_ok :: bool

text \<open>The search of lines 46 to 51, over the table from index \<open>i\<close> on.\<close>

fun find_pipe :: "int \<Rightarrow> int list \<Rightarrow> nat \<Rightarrow> nat option" where
  "find_pipe pid [] i = None"
| "find_pipe pid (p # ps) i = (if pid = p then Some i else find_pipe pid ps (Suc i))"

text \<open>
  An open output file is its contents and the file offset. \<open>open\<close> with
  \<open>O_CREAT | O_WRONLY\<close> creates an empty file when there is none and otherwise keeps the
  contents that are there (the flags have no \<open>O_TRUNC\<close>); the offset starts at 0.
  \<open>write\<close> puts the bytes at the offset, over what is there, and advances the offset.
\<close>

definition open_creat_wronly :: "(string \<rightharpoonup> string) \<Rightarrow> string \<Rightarrow> string \<times> nat" where
  "open_creat_wronly fs filename =
     (case fs filename of None \<Rightarrow> ([], 0) | Some old \<Rightarrow> (old, 0))"

definition write_file :: "string \<Rightarrow> string \<times> nat \<Rightarrow> string \<times> nat" where
  "write_file line f =
     (case f of (contents, offset) \<Rightarrow>
        (take offset contents @ line @ drop (offset + length line) contents,
         offset + length line))"

text \<open>Line 70 for the letter \<open>'a' + k\<close>, and the loop of lines 68 to 72.\<close>

definition histogram_line :: "cint list \<Rightarrow> nat \<Rightarrow> string" where
  "histogram_line counts k =
     (''abcdefghijklmnopqrstuvwxyz'' ! k) # ''='' @ show_int (sint (counts ! k))
       @ ''\<newline>''"

definition save_histogram :: "cint list \<Rightarrow> string \<times> nat \<Rightarrow> string \<times> nat" where
  "save_histogram counts f = fold (\<lambda>k. write_file (histogram_line counts k)) [0..<26] f"

text \<open>The whole text that the loop writes: 26 lines, for \<open>a\<close> to \<open>z\<close>.\<close>

definition histogram_text :: "cint list \<Rightarrow> string" where
  "histogram_text counts = concat (map (histogram_line counts) [0..<26])"

text \<open>The file name of line 60.\<close>

definition histogram_file :: "int \<Rightarrow> string" where
  "histogram_file pid = ''file'' @ show_int pid @ ''.hist''"

text \<open>The body of the loop of line 37 (lines 38 to 82) for one terminated child.\<close>

definition reap :: "reaped \<Rightarrow> proc \<Rightarrow> outcome" where
  "reap r s0 =
     (let s = log [Printf (''Parent caught SIGCHLD from child process ''
                      @ show_int (child_pid r) @ ''.\<newline>'')] s0;
          s = s\<lparr>numTerminated := numTerminated s + 1\<rparr>
      in case child_status r of
           Exited code \<Rightarrow>
             (case find_pipe (child_pid r) (pids s) 0 of
                Some curPipe \<Rightarrow>
                  (let s = log [Read_pipe curPipe] s in
                   if 0 < bytesRead r then
                     (let s = log [Printf (''Parent read histogram from pipe ''
                                      @ show_int (int curPipe) @ '' '')] s;
                          filename = histogram_file (child_pid r)
                      in if \<not> open_ok r
                         then Exits EXIT_FAILURE (log [Stderr ''Error opening file''] s)
                         else
                           (let f = save_histogram (characterCounts r)
                                      (open_creat_wronly (files s) filename);
                                s = s\<lparr>files := (files s)(filename \<mapsto> fst f)\<rparr>;
                                s = log [Printf (''and saved to file '' @ filename
                                           @ ''.\<newline>'')] s
                            in Continues (log [Close_read curPipe] s)))
                   else Continues (log [Close_read curPipe] s))
              | None \<Rightarrow>
                  Continues (log [Printf (''Error: Pipe for child ''
                                @ show_int (child_pid r) @ '' not found.\<newline>'')] s))
         | Signaled sig \<Rightarrow>
             Continues (log [Printf (''Child '' @ show_int (child_pid r)
                           @ '' terminated abnormally.\<newline>'')] s))"

text \<open>
  The loop of line 37 over the results of the successive \<open>waitpid\<close> calls: it ends at the
  first result that is not positive, or when there are no more.
\<close>

fun sigchld_loop :: "reaped list \<Rightarrow> proc \<Rightarrow> outcome" where
  "sigchld_loop [] s = Continues s"
| "sigchld_loop (r # rs) s =
     (if 0 < child_pid r
      then (case reap r s of Continues s' \<Rightarrow> sigchld_loop rs s' | out \<Rightarrow> out)
      else Continues s)"

text \<open>The handler: the loop, then lines 86 to 89 with the result of \<open>signal\<close>.\<close>

definition sigchld :: "reaped list \<Rightarrow> bool \<Rightarrow> proc \<Rightarrow> outcome" where
  "sigchld rs signal_ok s =
     (case sigchld_loop rs s of
        Continues s' \<Rightarrow>
          if signal_ok then Continues (log [Signal_SIGCHLD] s')
          else Exits EXIT_FAILURE (log [Stderr ''Error re-registering SIGCHLD handler''] s')
      | out \<Rightarrow> out)"

subsection \<open>\<open>main\<close> (lines 120 to 219)\<close>

text \<open>
  What the calls of iteration \<open>i\<close> of the loop of line 141 return. For the child:
  \<open>self_pid\<close> is its \<open>getpid()\<close>; \<open>open_result\<close> is the contents of the file \<open>argv[i]\<close>, or
  \<open>None\<close> when it cannot be opened; \<open>malloc_data_ok\<close> and \<open>malloc_hist_ok\<close> are the
  results of the \<open>malloc\<close> of line 170 and of the one in \<open>Histogram\<close>. The parent
  sends \<open>SIGINT\<close> to a \<open>SIG\<close> child right after the \<open>fork\<close> (line 207), so the signal
  can end the child at any point: \<open>sigint_after\<close> is \<open>Some n\<close> when it ends the child
  after \<open>n\<close> of the child's calls (0 when the child has not run at all, 4 when it is in
  its \<open>sleep(10)\<close>), and \<open>None\<close> when it does not end the child and \<open>sleep(10)\<close>
  returns.
\<close>

datatype fork_result = Fork_failed | In_child | In_parent int

record spawn_env =
  pipe_ok :: bool
  fork_result :: fork_result
  self_pid :: int
  open_result :: "byte list option"
  malloc_data_ok :: bool
  malloc_hist_ok :: bool
  sigint_after :: "nat option"

text \<open>
  The child for an argument other than \<open>SIG\<close> (lines 160 to 193). The file size, an
  \<open>off_t\<close>, is passed to \<open>Histogram\<close> as an \<open>int\<close>. When \<open>Histogram\<close> returns \<open>NULL\<close> it
  has printed its message on standard error (line 101), and the \<open>write\<close> of line 183 has
  no buffer to send and transmits nothing. (\<open>Histogram\<close> does not read past the buffer in
  this call: lemma \<open>Histogram_in_bounds\<close> below.)
\<close>

definition worker_file :: "nat \<Rightarrow> string \<Rightarrow> spawn_env \<Rightarrow> proc \<Rightarrow> outcome" where
  "worker_file i arg e s0 =
     (let s = log [Printf (''Opening file: '' @ arg @ ''\<newline>''), Open_input arg] s0 in
      case open_result e of
        None \<Rightarrow>
          Exits 1 (log [Stderr (''Error opening file '' @ arg @ ''. Exiting with 1.\<newline>''),
                        Close_write (i - 1)] s)
      | Some fileData \<Rightarrow>
          if \<not> malloc_data_ok e
          then Exits 1 (log [Stderr ''Failed to allocate memory for file data'',
                             Close_write (i - 1)] s)
          else
            (let s = log [Read_input arg,
                          Printf (''Calculating histogram for file: '' @ arg @ ''\<newline>'')] s;
                 calcHisto = Histogram (malloc_hist_ok e) fileData (of_nat (length fileData));
                 s = (case calcHisto of
                        Inr h \<Rightarrow> log [Write_pipe (i - 1) h] s
                      | Inl f \<Rightarrow>
                          if f = Alloc_failed
                          then log [Stderr ''Memory allocation failed\<newline>''] s
                          else s);
                 s = log [Printf (''Child process sleeping for ''
                            @ show_int (10 + 3 * (int i - 1)) @ '' seconds.\<newline>''),
                          Sleep (10 + 3 * (i - 1)),
                          Printf (''Child process completed for '' @ arg
                            @ ''. Exiting with 0.\<newline>''),
                          Close_write (i - 1)] s
             in Exits 0 s))"

text \<open>
  The bytes that a process has written to pipe \<open>k\<close>: the \<open>write\<close> of line 183 sends the
  ints of its table, 4 bytes each.
\<close>

fun sent :: "nat \<Rightarrow> event \<Rightarrow> nat" where
  "sent k (Write_pipe j h) = (if j = k then 4 * length h else 0)"
| "sent k e = 0"

definition bytes_sent :: "nat \<Rightarrow> event list \<Rightarrow> nat" where
  "bytes_sent k es = sum_list (map (sent k) es)"


text \<open>The parent after \<open>fork\<close>, statement by statement: lines 199 and 200, 201, 202, 205 to 208.\<close>

definition parent_close :: "nat \<Rightarrow> string \<Rightarrow> int \<Rightarrow> proc \<Rightarrow> proc" where
  "parent_close i arg pid s =
     log [Printf (''Parent process created child with PID: '' @ show_int pid @ '' for ''
            @ arg @ ''\<newline>''),
          Close_write (i - 1)] s"

definition parent_record :: "nat \<Rightarrow> int \<Rightarrow> proc \<Rightarrow> proc" where
  "parent_record i pid s = s\<lparr>pids := (pids s)[i - 1 := pid]\<rparr>"

definition parent_count :: "proc \<Rightarrow> proc" where
  "parent_count s = s\<lparr>numChildren := numChildren s + 1\<rparr>"

definition parent_kill :: "string \<Rightarrow> int \<Rightarrow> proc \<Rightarrow> proc" where
  "parent_kill arg pid s =
     (if arg = ''SIG''
      then log [Printf (''Parent sending SIGINT to child '' @ show_int pid @ ''\<newline>''),
                Kill_SIGINT pid] s
      else s)"

text \<open>
  The loop of line 141 from iteration \<open>i\<close> on, over the arguments \<open>argv[i]\<close>, \<open>argv[i+1]\<close>,
  ... that are left, followed by line 213. The trace of a child starts at its \<open>fork\<close>.
  After the \<open>sleep(10)\<close> of the \<open>SIG\<close> branch (line 196) nothing ends the iteration, so a
  child that is still alive goes on with the next iteration of the loop. A \<open>SIG\<close> child
  that the \<open>SIGINT\<close> ends after \<open>n\<close> of its calls has made the first \<open>n\<close> of the four
  calls of lines 155, 156, 195 and 196.
  The check of line 128 keeps \<open>i - 1\<close> below \<open>MAX_FILES\<close>, the size of the tables.
\<close>

fun main_loop :: "(nat \<Rightarrow> spawn_env) \<Rightarrow> nat \<Rightarrow> string list \<Rightarrow> proc \<Rightarrow> outcome" where
  "main_loop env i [] s =
     Continues (log [Printf ''Waiting for all child processes to terminate...\<newline>''] s)"
| "main_loop env i (arg # rest) s0 =
     (let e = env i;
          s = log [Printf (''Processing file/command '' @ arg @ ''...\<newline>'')] s0
      in if \<not> pipe_ok e then Exits EXIT_FAILURE (log [Stderr ''Error creating pipe''] s)
         else
           (let s = log [Pipe (i - 1), Fork] s in
            case fork_result e of
              Fork_failed \<Rightarrow>
                Exits EXIT_FAILURE (log [Stderr ''Error forking child process''] s)
            | In_child \<Rightarrow>
                (let s = log [Printf (''Child process started for '' @ arg @ ''\<newline>''),
                              Close_read (i - 1)] (s\<lparr>trace := []\<rparr>)
                 in if arg \<noteq> ''SIG'' then worker_file i arg e s
                    else
                      (let s = log [Printf (''Child process (PID: '' @ show_int (self_pid e)
                                       @ '') waiting for signal.\<newline>''),
                                    Sleep 10] s
                       in case sigint_after e of
                            Some n \<Rightarrow> Killed_by_signal (s\<lparr>trace := take n (trace s)\<rparr>)
                          | None \<Rightarrow> main_loop env (i + 1) rest s))
            | In_parent pid \<Rightarrow>
                main_loop env (i + 1) rest
                  (parent_kill arg pid (parent_count (parent_record i pid
                     (parent_close i arg pid s))))))"

text \<open>Lines 121 to 138: the checks of the argument count and the registration.\<close>

definition main_start :: "string list \<Rightarrow> (string \<rightharpoonup> string) \<Rightarrow> outcome" where
  "main_start argv fs =
     (let argc = int (length argv);
          s = \<lparr>pids = replicate MAX_FILES 0, numChildren = 0, numTerminated = 0, files = fs,
               trace = [Printf (''Starting program. Number of files provided: ''
                          @ show_int (argc - 1) @ ''\<newline>'')]\<rparr>
      in if argc = 1
         then Exits EXIT_FAILURE (log [Printf ''Error: No input files provided.\<newline>''] s)
         else if argc > int MAX_FILES + 1
         then Exits EXIT_FAILURE
                (log [Printf (''Error: Too many input files provided. Maximum allowed is ''
                        @ show_int (int MAX_FILES) @ ''.\<newline>'')] s)
         else Continues (log [Printf ''Registering SIGCHLD handler...\<newline>'',
                              Sigaction_SIGCHLD] s))"

text \<open>\<open>main\<close> up to line 213; \<open>Continues\<close> is a process that enters the loop of line 214.\<close>

definition main :: "string list \<Rightarrow> (nat \<Rightarrow> spawn_env) \<Rightarrow> (string \<rightharpoonup> string) \<Rightarrow> outcome" where
  "main argv env fs =
     (case main_start argv fs of
        Continues s \<Rightarrow> main_loop env 1 (tl argv) s
      | out \<Rightarrow> out)"

text \<open>One test of the loop of line 214: sleep a second, or lines 218 and 219.\<close>

definition wait_loop :: "proc \<Rightarrow> outcome" where
  "wait_loop s =
     (if numTerminated s < numChildren s then Continues (log [Sleep 1] s)
      else Exits 0 (log [Printf ''All child processes have terminated.\<newline>''] s))"

subsection \<open>Reading an outcome\<close>

fun state_of :: "outcome \<Rightarrow> proc" where
  "state_of (Continues s) = s"
| "state_of (Exits c s) = s"
| "state_of (Killed_by_signal s) = s"

fun exit_status :: "outcome \<Rightarrow> int option" where
  "exit_status (Continues s) = None"
| "exit_status (Exits c s) = Some c"
| "exit_status (Killed_by_signal s) = None"

fun is_message :: "event \<Rightarrow> bool" where
  "is_message (Printf m) = True"
| "is_message (Stderr m) = True"
| "is_message e = False"

subsection \<open>A run of the supervisor\<close>

text \<open>
  The supervisor is the process for which every \<open>fork\<close> returns in the parent. Its
  handler is asynchronous: \<open>SIGCHLD\<close> can arrive between any two statements of \<open>main\<close>,
  and \<open>sigchld\<close> then runs to its end before \<open>main\<close> goes on. A child can terminate at
  any time after its \<open>fork\<close>, and \<open>waitpid\<close> reports every terminated child once.
  \<open>waitpid(-1, ...)\<close> reports any child of the process: the workers it has forked, and
  the children that it had when \<open>main\<close> started (a process keeps its children across
  \<open>exec\<close>). A run is a list of labels, each one step of the supervisor:
  \<^item> \<open>Spawn pid\<close>: lines 142 to 150 when \<open>pipe\<close> and \<open>fork\<close> succeed and \<open>fork\<close> returns
    \<open>pid\<close> in the parent; the pid is positive and not that of a child still to be waited
    for (these lines change nothing that the handler reads, so they are one step);
  \<^item> \<open>Spawn_fails\<close>: the same lines when \<open>pipe\<close> fails (\<open>True\<close>) or \<open>fork\<close> fails;
  \<^item> \<open>Parent_statement\<close>: the next of the four statements of the parent branch (lines
    199 and 200, line 201, line 202, lines 205 to 208);
  \<^item> \<open>Enter_wait\<close>: line 213, after the last iteration; \<open>Test_wait\<close>: one test of the
    loop of line 214;
  \<^item> \<open>Signal_arrives\<close>: the handler starts; \<open>Reap r\<close>: one pass of its loop, for any
    child of the process that \<open>waitpid\<close> has not reported yet; \<open>Handler_returns\<close>: lines
    86 to 89 with the result of \<open>signal\<close>.

  In a configuration, \<open>pending\<close> holds the argument and the pid of the iteration whose
  parent branch is under way, with the number of its statements already done;
  \<open>unreaped\<close> lists the forked children that \<open>waitpid\<close> has not reported yet, and
  \<open>others\<close> the children from before \<open>main\<close> started that it has not reported yet;
  \<open>status\<close> is the exit status once the supervisor has ended. \<open>forked\<close> is a history
  variable, the pids that \<open>fork\<close> has returned so far; no step reads it.
\<close>

record config =
  sup :: proc
  args_left :: "string list"
  loop_i :: nat
  pending :: "(string \<times> int \<times> nat) option"
  waiting :: bool
  in_handler :: bool
  unreaped :: "int list"
  others :: "int list"
  forked :: "int list"
  status :: "int option"

datatype label =
    Spawn int
  | Spawn_fails bool
  | Parent_statement
  | Enter_wait
  | Test_wait
  | Signal_arrives
  | Reap reaped
  | Handler_returns bool

fun parent_statement :: "nat \<Rightarrow> string \<Rightarrow> int \<Rightarrow> nat \<Rightarrow> proc \<Rightarrow> proc" where
  "parent_statement i arg pid 0 = parent_close i arg pid"
| "parent_statement i arg pid (Suc 0) = parent_record i pid"
| "parent_statement i arg pid (Suc (Suc 0)) = parent_count"
| "parent_statement i arg pid (Suc (Suc (Suc n))) = parent_kill arg pid"

definition in_main :: "config \<Rightarrow> bool" where
  "in_main c \<longleftrightarrow> status c = None \<and> \<not> in_handler c"

fun step :: "label \<Rightarrow> config \<Rightarrow> config option" where
  "step (Spawn pid) c =
     (case args_left c of
        arg # rest \<Rightarrow>
          if in_main c \<and> pending c = None \<and> 0 < pid \<and> pid \<notin> set (unreaped c)
             \<and> pid \<notin> set (others c)
          then Some (c\<lparr>sup := log [Printf (''Processing file/command '' @ arg @ ''...\<newline>''),
                                  Pipe (loop_i c - 1), Fork] (sup c),
                        args_left := rest, pending := Some (arg, pid, 0),
                        unreaped := pid # unreaped c, forked := pid # forked c\<rparr>)
          else None
      | [] \<Rightarrow> None)"
| "step (Spawn_fails in_pipe) c =
     (case args_left c of
        arg # rest \<Rightarrow>
          if in_main c \<and> pending c = None
          then Some (c\<lparr>sup := log (Printf (''Processing file/command '' @ arg @ ''...\<newline>'')
                                  # (if in_pipe then [Stderr ''Error creating pipe'']
                                     else [Pipe (loop_i c - 1), Fork,
                                           Stderr ''Error forking child process'']))
                                (sup c),
                        status := Some EXIT_FAILURE\<rparr>)
          else None
      | [] \<Rightarrow> None)"
| "step Parent_statement c =
     (case pending c of
        Some (arg, pid, n) \<Rightarrow>
          if in_main c
          then Some (c\<lparr>sup := parent_statement (loop_i c) arg pid n (sup c),
                        pending := (if n < 3 then Some (arg, pid, n + 1) else None),
                        loop_i := (if n < 3 then loop_i c else loop_i c + 1)\<rparr>)
          else None
      | None \<Rightarrow> None)"
| "step Enter_wait c =
     (if in_main c \<and> pending c = None \<and> args_left c = [] \<and> \<not> waiting c
      then Some (c\<lparr>sup := log [Printf ''Waiting for all child processes to terminate...\<newline>'']
                              (sup c),
                    waiting := True\<rparr>)
      else None)"
| "step Test_wait c =
     (if in_main c \<and> waiting c
      then (case wait_loop (sup c) of
              Continues s \<Rightarrow> Some (c\<lparr>sup := s\<rparr>)
            | Exits code s \<Rightarrow> Some (c\<lparr>sup := s, status := Some code\<rparr>)
            | Killed_by_signal s \<Rightarrow> None)
      else None)"
| "step Signal_arrives c =
     (if in_main c then Some (c\<lparr>in_handler := True\<rparr>) else None)"
| "step (Reap r) c =
     (if status c = None \<and> in_handler c \<and> 0 < child_pid r
         \<and> (child_pid r \<in> set (unreaped c) \<or> child_pid r \<in> set (others c))
      then (case reap r (sup c) of
              Continues s \<Rightarrow>
                Some (c\<lparr>sup := s, unreaped := remove1 (child_pid r) (unreaped c),
                        others := remove1 (child_pid r) (others c)\<rparr>)
            | Exits code s \<Rightarrow>
                Some (c\<lparr>sup := s, unreaped := remove1 (child_pid r) (unreaped c),
                        others := remove1 (child_pid r) (others c),
                        status := Some code\<rparr>)
            | Killed_by_signal s \<Rightarrow> None)
      else None)"
| "step (Handler_returns signal_ok) c =
     (if status c = None \<and> in_handler c
      then (if signal_ok
            then Some (c\<lparr>sup := log [Signal_SIGCHLD] (sup c), in_handler := False\<rparr>)
            else Some (c\<lparr>sup := log [Stderr ''Error re-registering SIGCHLD handler''] (sup c),
                          status := Some EXIT_FAILURE\<rparr>))
      else None)"

fun run :: "label list \<Rightarrow> config \<Rightarrow> config option" where
  "run [] c = Some c"
| "run (l # ls) c = (case step l c of Some c' \<Rightarrow> run ls c' | None \<Rightarrow> None)"

text \<open>
  The supervisor after lines 121 to 138, with the children that it had when \<open>main\<close>
  started; \<open>[]\<close> for a process that had none.
\<close>

definition start :: "string list \<Rightarrow> (string \<rightharpoonup> string) \<Rightarrow> int list \<Rightarrow> config" where
  "start argv fs inherited =
     \<lparr>sup = state_of (main_start argv fs), args_left = tl argv, loop_i = 1, pending = None,
      waiting = False, in_handler = False, unreaped = [], others = inherited, forked = [],
      status = exit_status (main_start argv fs)\<rparr>"

definition counters :: "config \<Rightarrow> int \<times> int" where
  "counters c = (numTerminated (sup c), numChildren (sup c))"

text \<open>
  The labels of the run in which no signal arrives while the workers are started: for
  each pid that \<open>fork\<close> returns, one whole iteration of the loop, and then line 213.
\<close>

fun uninterrupted :: "int list \<Rightarrow> label list" where
  "uninterrupted [] = [Enter_wait]"
| "uninterrupted (pid # ps) =
     [Spawn pid, Parent_statement, Parent_statement, Parent_statement, Parent_statement]
       @ uninterrupted ps"

text \<open>
  Readings of a configuration. \<open>uncounted\<close>: a child has been forked and line 202 has not
  counted it yet. \<open>recorded\<close> and \<open>write_closed\<close>: the number of iterations that have
  passed line 201, and line 200. \<open>new_events\<close>: what a piece of code has added to the
  trace.
\<close>

definition uncounted :: "config \<Rightarrow> bool" where
  "uncounted c = (case pending c of Some (arg, pid, n) \<Rightarrow> n < 3 | None \<Rightarrow> False)"




text \<open>Invariants of a run, used in the proofs below.\<close>

definition balanced :: "config \<Rightarrow> bool" where
  "balanced c \<longleftrightarrow>
     others c = []
     \<and> numTerminated (sup c) + int (length (unreaped c)) =
         numChildren (sup c) + (if uncounted c then 1 else 0)"

definition settled :: "config \<Rightarrow> bool" where
  "settled c \<longleftrightarrow>
     (waiting c \<longrightarrow> pending c = None \<and> args_left c = [])
     \<and> (status c = Some 0 \<longrightarrow> waiting c \<and> numTerminated (sup c) = numChildren (sup c))"






subsection \<open>Sample values\<close>

text \<open>
  A supervisor that has started two workers, 4242 on pipe 0 and 4243 on pipe 1; what the
  handler gets when worker 4243 has exited with status 0 and sent the table of the buffer
  \<open>AbcAbc\<close>; and the environment of a child whose file cannot be opened.
\<close>

definition sample_proc :: proc where
  "sample_proc =
     \<lparr>pids = [4242, 4243] @ replicate 98 0, numChildren = 2, numTerminated = 0,
      files = Map.empty, trace = []\<rparr>"

definition sample_reaped :: reaped where
  "sample_reaped =
     \<lparr>child_pid = 4243, child_status = Exited 0, bytesRead = 104,
      characterCounts = [2, 2, 2] @ replicate 23 0, open_ok = True\<rparr>"

definition sample_env :: spawn_env where
  "sample_env =
     \<lparr>pipe_ok = True, fork_result = In_child, self_pid = 4243, open_result = None,
      malloc_data_ok = True, malloc_hist_ok = True, sigint_after = None\<rparr>"

text \<open>
  The environment in which the child forked for the first argument is not ended by the
  \<open>SIGINT\<close> (for example because the program was started with \<open>SIGINT\<close> ignored), and
  every later \<open>fork\<close> returns 4250 in the parent.
\<close>

definition timeout_env :: "nat \<Rightarrow> spawn_env" where
  "timeout_env i =
     (if i = 1
      then \<lparr>pipe_ok = True, fork_result = In_child, self_pid = 4242, open_result = None,
            malloc_data_ok = True, malloc_hist_ok = True, sigint_after = None\<rparr>
      else \<lparr>pipe_ok = True, fork_result = In_parent 4250, self_pid = 4242,
            open_result = None, malloc_data_ok = True, malloc_hist_ok = True,
            sigint_after = None\<rparr>)"

section \<open>Properties of \<open>Histogram\<close>\<close>

subsection \<open>The loop as a fold\<close>

lemma count_loop_fold:
  assumes "0 \<le> sint i" "sint i \<le> sint Size" "nat (sint Size) \<le> length Data"
  shows "count_loop Data Size i h =
    Inr (fold count_byte (take (nat (sint Size) - nat (sint i)) (drop (nat (sint i)) Data)) h)"
  using assms
proof (induction "nat (sint Size - sint i)" arbitrary: i h)
  case 0
  then have "\<not> sint i < sint Size" by simp
  with 0 show ?case by (subst count_loop.simps) simp
next
  case (Suc n)
  then have lt: "sint i < sint Size" by linarith
  have "sint Size < 2 ^ 31" using sint_lt [of Size] by simp
  moreover have "- (2 ^ 31) \<le> sint i" using sint_ge [of i] by simp
  ultimately have succ: "sint (i + 1) = sint i + 1" using lt
    by (simp add: sint_word_ariths signed_take_bit_int_eq_self)
  have inb: "nat (sint i) < length Data" using lt Suc.prems by linarith
  have n: "n = nat (sint Size - sint (i + 1))" using Suc.hyps(2) succ by linarith
  have ih: "count_loop Data Size (i + 1) (count_byte (Data ! nat (sint i)) h) =
      Inr (fold count_byte
             (take (nat (sint Size) - nat (sint (i + 1))) (drop (nat (sint (i + 1))) Data))
             (count_byte (Data ! nat (sint i)) h))"
    using Suc.hyps(1) [OF n] succ lt Suc.prems by simp
  have nat_succ: "nat (sint (i + 1)) = Suc (nat (sint i))" using succ Suc.prems(1) by simp
  have sub: "nat (sint Size) - nat (sint i) = Suc (nat (sint Size) - Suc (nat (sint i)))"
    using lt Suc.prems(1) by linarith
  have dr: "drop (nat (sint i)) Data = Data ! nat (sint i) # drop (Suc (nat (sint i))) Data"
    using inb by (simp add: Cons_nth_drop_Suc)
  have "count_loop Data Size i h =
      count_loop Data Size (i + 1) (count_byte (Data ! nat (sint i)) h)"
    using lt inb Suc.prems(1) by (subst count_loop.simps) simp
  also note ih
  finally show ?case by (simp add: nat_succ sub dr)
qed

lemma Histogram_fold:
  assumes "0 \<le> sint Size" "length Data = nat (sint Size)"
  shows "Histogram True Data Size = Inr (fold count_byte Data (replicate 26 0))"
  using count_loop_fold [of 0 Size Data "replicate 26 0"] assms
  by (simp add: Histogram_def)

lemma Histogram_eq:
  assumes "0 \<le> sint Size" "length Data = nat (sint Size)"
  shows "Histogram malloc_ok Data Size =
           (if malloc_ok then Inr (fold count_byte Data (replicate 26 0)) else Inl Alloc_failed)"
  using Histogram_fold [OF assms] by (cases malloc_ok) (simp_all add: Histogram_def)

lemma length_lt_of_Size:
  assumes "length Data = nat (sint (Size :: cint))"
  shows "length Data < 2 ^ 31"
proof -
  have "sint Size < 2147483648" using sint_lt [of Size] by simp
  then have "nat (sint Size) < 2147483648" by linarith
  with assms show ?thesis by simp
qed

lemma sint_of_nat_small: "n < 2 ^ 31 \<Longrightarrow> sint (of_nat n :: cint) = int n"
  by (simp only: signed_of_nat) (simp add: signed_take_bit_int_eq_self)

text \<open>
  With the length of the buffer as \<open>Size\<close>, also after its conversion to \<open>int\<close>, the loop
  never reads past the buffer.
\<close>

lemma sint_of_nat_le:
  assumes "0 < sint (of_nat n :: cint)"
  shows "nat (sint (of_nat n :: cint)) \<le> n"
proof -
  have s: "sint (of_nat n :: cint) = signed_take_bit 31 (int n)"
    by (simp only: signed_of_nat) simp
  with assms have "\<not> bit (int n) 31"
    using signed_take_bit_negative_iff [of 31 "int n"] by linarith
  then have "signed_take_bit 31 (int n) = take_bit 31 (int n)"
    by (rule signed_take_bit_eq_if_positive)
  moreover have "take_bit 31 (int n) \<le> int n"
    by (simp add: take_bit_int_less_eq_self_iff)
  ultimately show ?thesis using s by linarith
qed

lemma Histogram_in_bounds:
  "Histogram malloc_ok Data (of_nat (length Data)) \<noteq> Inl Out_of_bounds"
proof (cases "0 < sint (of_nat (length Data) :: cint)")
  case True
  then have "nat (sint (of_nat (length Data) :: cint)) \<le> length Data"
    by (rule sint_of_nat_le)
  with True show ?thesis
    using count_loop_fold [of 0 "of_nat (length Data)" Data "replicate 26 0"]
    by (simp add: Histogram_def)
next
  case False
  then have "count_loop Data (of_nat (length Data)) 0 (replicate 26 0) = Inr (replicate 26 0)"
    by (subst count_loop.simps) simp
  then show ?thesis by (simp add: Histogram_def)
qed

subsection \<open>Buckets\<close>

lemma unat_tolower: "unat (tolower c) = (if isupper c then unat c + 32 else unat c)"
proof (cases "isupper c")
  case True
  then have "unat c + unat (32 :: byte) < 2 ^ LENGTH(8)" by (simp add: isupper_def)
  then have "unat (c + 32) = unat c + unat (32 :: byte)" by (simp only: unat_add_lem)
  with True show ?thesis by (simp add: tolower_def)
next
  case False
  then show ?thesis by (simp add: tolower_def)
qed

lemma unat_toupper: "unat (toupper c) = (if islower c then unat c - 32 else unat c)"
proof (cases "islower c")
  case True
  then have "(32 :: byte) \<le> c" by (simp add: islower_def word_le_nat_alt)
  then have "unat (c - 32) = unat c - unat (32 :: byte)" by (rule unat_sub)
  with True show ?thesis by (simp add: toupper_def)
next
  case False
  then show ?thesis by (simp add: toupper_def)
qed

lemma unat_other_case:
  "unat (other_case c) =
     (if isupper c then unat c + 32 else if islower c then unat c - 32 else unat c)"
  by (simp add: other_case_def unat_tolower unat_toupper)

lemma bucket_lt: "isalpha c \<Longrightarrow> unat (tolower c) - 97 < 26"
  by (auto simp: unat_tolower isalpha_def isupper_def islower_def)

lemma bucket_iff:
  "i < 26 \<Longrightarrow>
     (isalpha c \<and> unat (tolower c) - 97 = i) \<longleftrightarrow> (unat c = 97 + i \<or> unat c = 65 + i)"
  by (auto simp: unat_tolower isalpha_def isupper_def islower_def)

lemma length_count_byte: "length (count_byte c h) = length h"
  by (simp add: count_byte_def Let_def)

lemma length_fold_count_byte: "length (fold count_byte xs h) = length h"
  by (induction xs arbitrary: h) (simp_all add: length_count_byte)

lemma count_byte_nth:
  assumes "length h = 26" "j < 26"
  shows "count_byte c h ! j = h ! j + (if unat c = 97 + j \<or> unat c = 65 + j then 1 else 0)"
proof (cases "isalpha c")
  case True
  let ?k = "unat (tolower c) - 97"
  have k: "?k < 26" using True by (rule bucket_lt)
  have "count_byte c h ! j = (if ?k = j then h ! j + 1 else h ! j)"
    using True k assms by (auto simp: count_byte_def Let_def)
  also have "\<dots> = h ! j + (if isalpha c \<and> ?k = j then 1 else 0)" using True by simp
  finally show ?thesis using bucket_iff [OF assms(2), of c] by simp
next
  case False
  then have "\<not> (unat c = 97 + j \<or> unat c = 65 + j)"
    using bucket_iff [OF assms(2), of c] by blast
  with False show ?thesis by (simp add: count_byte_def)
qed

lemma fold_count_byte_nth:
  "length h = 26 \<Longrightarrow> j < 26 \<Longrightarrow>
     fold count_byte xs h ! j = h ! j + of_nat (letter_count xs j)"
proof (induction xs arbitrary: h)
  case Nil
  then show ?case by (simp add: letter_count_def)
next
  case (Cons c cs)
  have "fold count_byte (c # cs) h ! j = count_byte c h ! j + of_nat (letter_count cs j)"
    using Cons.IH [of "count_byte c h"] Cons.prems by (simp add: length_count_byte)
  then show ?case using count_byte_nth [OF Cons.prems, of c] by (simp add: letter_count_def)
qed

lemma letter_count_le: "letter_count xs j \<le> length xs"
  by (simp add: letter_count_def)

lemma fold_count_byte_bucket:
  assumes "length Data < 2 ^ 31" "i < 26"
  shows "sint (fold count_byte Data (replicate 26 0) ! i) = int (letter_count Data i)"
proof -
  have "letter_count Data i < 2 ^ 31"
    using letter_count_le [of Data i] assms(1) by linarith
  then show ?thesis
    using fold_count_byte_nth [of "replicate 26 0" i Data] assms(2)
    by (simp add: sint_of_nat_small)
qed

lemma fold_count_byte_filter: "fold count_byte (filter isalpha xs) h = fold count_byte xs h"
  by (induction xs arbitrary: h) (simp_all add: count_byte_def)

subsection \<open>The sum of the buckets\<close>

lemma sum_letter_count: "(\<Sum>i<26. letter_count xs i) = length (filter isalpha xs)"
proof (induction xs)
  case Nil
  then show ?case by (simp add: letter_count_def)
next
  case (Cons c cs)
  have one: "(\<Sum>i<26. if unat c = 97 + i \<or> unat c = 65 + i then 1 else 0 :: nat) =
      (if isalpha c then 1 else 0)"
  proof (cases "isalpha c")
    case True
    let ?k = "unat (tolower c) - 97"
    have k: "?k < 26" using True by (rule bucket_lt)
    have "(\<Sum>i<26. if unat c = 97 + i \<or> unat c = 65 + i then 1 else 0 :: nat) =
        (\<Sum>i<26. if ?k = i then 1 else 0)"
      by (rule sum.cong) (use True bucket_iff [of _ c] in auto)
    also have "\<dots> = 1" using k by simp
    finally show ?thesis using True by simp
  next
    case False
    have "(\<Sum>i<26. if unat c = 97 + i \<or> unat c = 65 + i then 1 else 0 :: nat) =
        (\<Sum>i::nat<26. 0 :: nat)"
      by (rule sum.cong) (use False bucket_iff [of _ c] in auto)
    then show ?thesis using False by simp
  qed
  have "(\<Sum>i<26. letter_count (c # cs) i) =
      (\<Sum>i<26. (if unat c = 97 + i \<or> unat c = 65 + i then 1 else 0) + letter_count cs i)"
    by (rule sum.cong) (simp_all add: letter_count_def)
  also have "\<dots> = (if isalpha c then 1 else 0) + length (filter isalpha cs)"
    by (simp add: sum.distrib one Cons.IH)
  finally show ?case by simp
qed

lemma sum_buckets:
  assumes "length Data < 2 ^ 31"
  shows "sum_list (map sint (fold count_byte Data (replicate 26 0))) =
    int (length (filter isalpha Data))"
proof -
  let ?h = "fold count_byte Data (replicate 26 0)"
  have len: "length ?h = 26" by (simp add: length_fold_count_byte)
  have "sum_list (map sint ?h) = (\<Sum>i = 0..<26. map sint ?h ! i)"
    using sum_list_sum_nth [of "map sint ?h"] len by simp
  also have "\<dots> = (\<Sum>i = 0..<26. int (letter_count Data i))"
    by (rule sum.cong) (simp_all add: len fold_count_byte_bucket [OF assms])
  also have "\<dots> = int (\<Sum>i<26. letter_count Data i)"
    by (simp add: lessThan_atLeast0)
  finally show ?thesis by (simp only: sum_letter_count)
qed

subsection \<open>Changing the case of letters\<close>

lemma count_byte_other_case: "count_byte (other_case c) h = count_byte c h"
proof -
  have a: "isalpha (other_case c) = isalpha c"
    by (auto simp: isalpha_def isupper_def islower_def unat_other_case)
  have b: "unat (tolower (other_case c)) = unat (tolower c)"
    by (auto simp: unat_tolower isupper_def islower_def unat_other_case)
  show ?thesis by (simp add: count_byte_def a b)
qed

lemma fold_count_byte_case_variant:
  "list_all2 (\<lambda>x y. y = x \<or> y = other_case x) xs ys \<Longrightarrow>
     fold count_byte ys h = fold count_byte xs h"
proof (induction xs ys arbitrary: h rule: list_all2_induct)
  case Nil
  then show ?case by simp
next
  case (Cons x xs y ys)
  then have "count_byte y h = count_byte x h" using count_byte_other_case by auto
  with Cons.IH show ?case by simp
qed

lemma case_variant_update:
  assumes "k < length xs"
  shows "list_all2 (\<lambda>x y. y = x \<or> y = other_case x) xs (xs[k := other_case (xs ! k)])"
  using assms by (simp add: list_all2_conv_all_nth nth_list_update)

section \<open>The claims about \<open>Histogram\<close>\<close>

text \<open>
  Claim C1, as the code has it. For a buffer \<open>Data\<close> of length \<open>Size \<ge> 0\<close>, when the
  table can be allocated \<open>Histogram\<close> returns 26 buckets; bucket \<open>i\<close> is the number of
  bytes of \<open>Data\<close> that are the letter \<open>'a' + i\<close> in lower or upper case; the bytes that
  are not alphabetic contribute nothing (dropping them from the buffer gives the same
  table); and for \<open>Size = 0\<close> every bucket is zero. When the allocation fails, \<open>Histogram\<close>
  returns \<open>NULL\<close> instead of a table.
\<close>

theorem Histogram_counts_letters:
  assumes "0 \<le> sint Size" and "length Data = nat (sint Size)"
  shows "(\<exists>h. Histogram True Data Size = Inr h \<and> length h = 26
            \<and> (\<forall>i<26. sint (h ! i) = int (letter_count Data i))
            \<and> Histogram True (filter isalpha Data) (of_nat (length (filter isalpha Data))) = Inr h
            \<and> (Size = 0 \<longrightarrow> h = replicate 26 0))
         \<and> Histogram False Data Size = Inl Alloc_failed"
proof -
  let ?h = "fold count_byte Data (replicate 26 0)"
  let ?A = "filter isalpha Data"
  have len: "length Data < 2 ^ 31" using assms(2) by (rule length_lt_of_Size)
  have "length ?A \<le> length Data" by simp
  with len have lenA: "length ?A < 2 ^ 31" by linarith
  have h: "Histogram True Data Size = Inr ?h" using assms by (rule Histogram_fold)
  have "Histogram True ?A (of_nat (length ?A)) = Inr (fold count_byte ?A (replicate 26 0))"
    by (rule Histogram_fold) (simp_all add: sint_of_nat_small [OF lenA])
  then have f: "Histogram True ?A (of_nat (length ?A)) = Inr ?h"
    by (simp add: fold_count_byte_filter)
  have b: "\<forall>i<26. sint (?h ! i) = int (letter_count Data i)"
    using fold_count_byte_bucket [OF len] by blast
  have z: "Size = 0 \<longrightarrow> ?h = replicate 26 0" using assms(2) by auto
  have n: "Histogram False Data Size = Inl Alloc_failed" by (simp add: Histogram_def)
  show ?thesis using h f b z n by (simp add: length_fold_count_byte)
qed

text \<open>
  The scenario of the specification: the buffer \<open>AbcAbc\<close> gives \<open>a = 2\<close>, \<open>b = 2\<close>,
  \<open>c = 2\<close> and no \<open>d\<close>.
\<close>

theorem Histogram_counts_letters_witness:
  "0 \<le> sint (6 :: cint)
   \<and> length [0x41, 0x62, 0x63, 0x41, 0x62, 0x63 :: byte] = nat (sint (6 :: cint))
   \<and> (\<exists>h. Histogram True [0x41, 0x62, 0x63, 0x41, 0x62, 0x63] 6 = Inr h \<and> length h = 26
          \<and> sint (h ! 0) = 2 \<and> sint (h ! 1) = 2 \<and> sint (h ! 2) = 2 \<and> sint (h ! 3) = 0)
   \<and> length ([] :: byte list) = nat (sint (0 :: cint))
   \<and> Histogram True [] 0 = Inr (replicate 26 0)"
proof -
  have a: "0 \<le> sint (6 :: cint)" by simp
  have b: "length [0x41, 0x62, 0x63, 0x41, 0x62, 0x63 :: byte] = nat (sint (6 :: cint))"
    by simp
  from Histogram_counts_letters [OF a b] obtain h where
    h: "Histogram True [0x41, 0x62, 0x63, 0x41, 0x62, 0x63] 6 = Inr h" "length h = 26"
       "\<forall>i<26. sint (h ! i) = int (letter_count [0x41, 0x62, 0x63, 0x41, 0x62, 0x63] i)"
    by blast
  have "sint (h ! 0) = 2" "sint (h ! 1) = 2" "sint (h ! 2) = 2" "sint (h ! 3) = 0"
    using h(3) by (simp_all add: letter_count_def)
  with h(1,2) have c: "\<exists>h. Histogram True [0x41, 0x62, 0x63, 0x41, 0x62, 0x63] 6 = Inr h
      \<and> length h = 26
      \<and> sint (h ! 0) = 2 \<and> sint (h ! 1) = 2 \<and> sint (h ! 2) = 2 \<and> sint (h ! 3) = 0"
    by blast
  have d: "0 \<le> sint (0 :: cint)" by simp
  have e: "length ([] :: byte list) = nat (sint (0 :: cint))" by simp
  from Histogram_counts_letters [OF d e] obtain z where
    "Histogram True [] 0 = Inr z" "(0 :: cint) = 0 \<longrightarrow> z = replicate 26 0"
    by blast
  then have f: "Histogram True [] 0 = Inr (replicate 26 0)" by simp
  show ?thesis using a b c e f by blast
qed

text \<open>
  Claim C1 as it is written promises a table for every buffer. On the one-byte buffer
  \<open>a\<close>, when \<open>malloc\<close> returns \<open>NULL\<close>, lines 100 to 103 return \<open>NULL\<close>.
\<close>

theorem Histogram_alloc_failure: "Histogram False [0x61] 1 = Inl Alloc_failed"
  by (simp add: Histogram_def)

text \<open>
  Claim C2. For a buffer \<open>Data\<close> of length \<open>Size\<close>: when the table can be allocated,
  \<open>Histogram\<close> returns a table of 26 buckets that sum to the number of alphabetic bytes
  of \<open>Data\<close>, and it returns the same table when the byte at one position \<open>k\<close> is
  replaced by the same letter in the other case, or when bytes at any number of positions
  are. Whatever the allocation does, a table that is returned has that sum, and the result
  is the same for the buffer and for its case variants.
\<close>

theorem Histogram_sum_and_case_invariance:
  assumes "0 \<le> sint Size" and "length Data = nat (sint Size)"
  shows "(\<exists>h. Histogram True Data Size = Inr h \<and> length h = 26
            \<and> sum_list (map sint h) = int (length (filter isalpha Data))
            \<and> (\<forall>k<length Data.
                  Histogram True (Data[k := other_case (Data ! k)]) Size = Inr h)
            \<and> (\<forall>Data'. list_all2 (\<lambda>x y. y = x \<or> y = other_case x) Data Data' \<longrightarrow>
                  Histogram True Data' Size = Inr h))
       \<and> (\<forall>h. Histogram malloc_ok Data Size = Inr h \<longrightarrow>
            sum_list (map sint h) = int (length (filter isalpha Data)))
       \<and> (\<forall>k<length Data.
            Histogram malloc_ok (Data[k := other_case (Data ! k)]) Size =
            Histogram malloc_ok Data Size)
       \<and> (\<forall>Data'. list_all2 (\<lambda>x y. y = x \<or> y = other_case x) Data Data' \<longrightarrow>
            Histogram malloc_ok Data' Size = Histogram malloc_ok Data Size)"
proof -
  have len: "length Data < 2 ^ 31" using assms(2) by (rule length_lt_of_Size)
  let ?h = "fold count_byte Data (replicate 26 0)"
  have r: "Histogram True Data Size = Inr ?h" using assms by (rule Histogram_fold)
  have vt: "Histogram True Data' Size = Inr ?h"
    if "list_all2 (\<lambda>x y. y = x \<or> y = other_case x) Data Data'" for Data'
  proof -
    have "length Data' = nat (sint Size)" using that assms(2) by (simp add: list_all2_lengthD)
    then show ?thesis
      using fold_count_byte_case_variant [OF that]
      by (simp add: Histogram_fold [OF assms(1)])
  qed
  have ut: "\<forall>k<length Data. Histogram True (Data[k := other_case (Data ! k)]) Size = Inr ?h"
    using vt case_variant_update by blast
  have e: "\<exists>h. Histogram True Data Size = Inr h \<and> length h = 26
            \<and> sum_list (map sint h) = int (length (filter isalpha Data))
            \<and> (\<forall>k<length Data.
                  Histogram True (Data[k := other_case (Data ! k)]) Size = Inr h)
            \<and> (\<forall>Data'. list_all2 (\<lambda>x y. y = x \<or> y = other_case x) Data Data' \<longrightarrow>
                  Histogram True Data' Size = Inr h)"
    using r sum_buckets [OF len] ut vt by (simp add: length_fold_count_byte)
  have s: "\<forall>h. Histogram malloc_ok Data Size = Inr h \<longrightarrow>
            sum_list (map sint h) = int (length (filter isalpha Data))"
    using sum_buckets [OF len] by (auto simp: Histogram_eq [OF assms] split: if_splits)
  have v: "Histogram malloc_ok Data' Size = Histogram malloc_ok Data Size"
    if "list_all2 (\<lambda>x y. y = x \<or> y = other_case x) Data Data'" for Data'
  proof -
    have "length Data' = nat (sint Size)" using that assms(2) by (simp add: list_all2_lengthD)
    then show ?thesis
      using fold_count_byte_case_variant [OF that]
      by (simp add: Histogram_eq [OF assms(1)] assms(2))
  qed
  have u: "\<forall>k<length Data.
            Histogram malloc_ok (Data[k := other_case (Data ! k)]) Size =
            Histogram malloc_ok Data Size"
    using v case_variant_update by blast
  show ?thesis using e s u v by blast
qed

text \<open>
  On the buffer \<open>Hi!z\<close> the table has \<open>h = 1\<close>, \<open>i = 1\<close>, \<open>z = 1\<close>, which sum to the three
  letters of the buffer, and \<open>HI!z\<close> (the second byte in the other case) and \<open>hI!Z\<close>
  (every letter in the other case) have the same table.
\<close>

theorem Histogram_sum_and_case_invariance_witness:
  "0 \<le> sint (4 :: cint) \<and> length [0x48, 0x69, 0x21, 0x7A :: byte] = nat (sint (4 :: cint))
   \<and> Histogram True [0x48, 0x69, 0x21, 0x7A] 4
        = Inr [0,0,0,0,0,0,0,1,1,0,0,0,0,0,0,0,0,0,0,0,0,0,0,0,0,1]
   \<and> sum_list (map sint [0,0,0,0,0,0,0,1,1,0,0,0,0,0,0,0,0,0,0,0,0,0,0,0,0,1 :: cint])
        = int (length (filter isalpha [0x48, 0x69, 0x21, 0x7A]))
   \<and> length (filter isalpha [0x48, 0x69, 0x21, 0x7A]) = 3
   \<and> [0x48, 0x69, 0x21, 0x7A][1 := other_case ([0x48, 0x69, 0x21, 0x7A] ! 1)]
        = [0x48, 0x49, 0x21, 0x7A]
   \<and> Histogram True [0x48, 0x49, 0x21, 0x7A] 4 = Histogram True [0x48, 0x69, 0x21, 0x7A] 4
   \<and> list_all2 (\<lambda>x y. y = x \<or> y = other_case x) [0x48, 0x69, 0x21, 0x7A]
        [0x68, 0x49, 0x21, 0x5A]
   \<and> Histogram True [0x68, 0x49, 0x21, 0x5A] 4 = Histogram True [0x48, 0x69, 0x21, 0x7A] 4
   \<and> (\<exists>h. Histogram True [0x48, 0x69, 0x21, 0x7A] 4 = Inr h \<and> length h = 26
          \<and> Histogram True [0x68, 0x49, 0x21, 0x5A] 4 = Inr h)"
proof -
  let ?D = "[0x48, 0x69, 0x21, 0x7A] :: byte list"
  have a: "0 \<le> sint (4 :: cint)" by simp
  have b: "length ?D = nat (sint (4 :: cint))" by simp
  have h: "Histogram True ?D 4 = Inr [0,0,0,0,0,0,0,1,1,0,0,0,0,0,0,0,0,0,0,0,0,0,0,0,0,1]"
    by code_simp
  have o: "?D[1 := other_case (?D ! 1)] = [0x48, 0x49, 0x21, 0x7A]"
    by (simp add: other_case_def isupper_def islower_def toupper_def)
  have n: "length (filter isalpha ?D) = 3"
    by (simp add: isalpha_def isupper_def islower_def)
  note t = Histogram_sum_and_case_invariance [OF a b, of True, THEN conjunct2]
  from Histogram_sum_and_case_invariance [OF a b, of True] obtain g where
    g: "Histogram True ?D 4 = Inr g" "length g = 26"
       "\<forall>Data'. list_all2 (\<lambda>x y. y = x \<or> y = other_case x) ?D Data' \<longrightarrow>
          Histogram True Data' 4 = Inr g"
    by blast
  from t h have s:
    "sum_list (map sint [0,0,0,0,0,0,0,1,1,0,0,0,0,0,0,0,0,0,0,0,0,0,0,0,0,1 :: cint])
        = int (length (filter isalpha ?D))" by blast
  have l: "1 < length ?D" by simp
  have "Histogram True (?D[1 := other_case (?D ! 1)]) 4 = Histogram True ?D 4"
    by (rule t [THEN conjunct2, THEN conjunct1, rule_format, OF l])
  then have c: "Histogram True [0x48, 0x49, 0x21, 0x7A] 4 = Histogram True ?D 4"
    by (simp only: o)
  have v: "list_all2 (\<lambda>x y. y = x \<or> y = other_case x) ?D [0x68, 0x49, 0x21, 0x5A]"
    by (simp add: other_case_def isupper_def islower_def toupper_def tolower_def)
  have w: "Histogram True [0x68, 0x49, 0x21, 0x5A] 4 = Histogram True ?D 4"
    by (rule t [THEN conjunct2, THEN conjunct2, rule_format, OF v])
  have "Histogram True [0x68, 0x49, 0x21, 0x5A] 4 = Inr g"
    by (rule g(3) [rule_format, OF v])
  with g(1,2) have x: "\<exists>h. Histogram True ?D 4 = Inr h \<and> length h = 26
          \<and> Histogram True [0x68, 0x49, 0x21, 0x5A] 4 = Inr h" by blast
  show ?thesis by (intro conjI) (fact a b h s n o c v w x)+
qed

section \<open>Properties of the handler\<close>

subsection \<open>The table of pids\<close>

lemma find_pipe_None_iff: "find_pipe pid ps i = None \<longleftrightarrow> pid \<notin> set ps"
  by (induction ps arbitrary: i) auto


subsection \<open>Writing the output file\<close>

lemma write_file_fold:
  "off \<le> length c \<Longrightarrow>
     fold (\<lambda>k. write_file (g k)) ks (c, off) =
       (take off c @ concat (map g ks) @ drop (off + length (concat (map g ks))) c,
        off + length (concat (map g ks)))"
proof (induction ks arbitrary: c off)
  case Nil
  then show ?case by simp
next
  case (Cons k ks)
  let ?c = "take off c @ g k @ drop (off + length (g k)) c"
  let ?o = "off + length (g k)"
  let ?t = "concat (map g ks)"
  have le: "?o \<le> length ?c" using Cons.prems by simp
  have tk: "take ?o ?c = take off c @ g k" using Cons.prems by simp
  have dr: "drop (?o + length ?t) ?c = drop (off + length (g k) + length ?t) c"
    using Cons.prems by (simp add: add.commute)
  have "fold (\<lambda>k. write_file (g k)) (k # ks) (c, off) = fold (\<lambda>k. write_file (g k)) ks (?c, ?o)"
    by (simp add: write_file_def)
  also have "\<dots> = (take ?o ?c @ ?t @ drop (?o + length ?t) ?c, ?o + length ?t)"
    using le by (rule Cons.IH)
  finally show ?case by (simp only: tk dr) (simp add: add.assoc)
qed

lemma save_histogram_open:
  "save_histogram counts (open_creat_wronly fs name) =
     (case fs name of
        None \<Rightarrow> (histogram_text counts, length (histogram_text counts))
      | Some old \<Rightarrow> (histogram_text counts @ drop (length (histogram_text counts)) old,
                     length (histogram_text counts)))"
  by (simp add: save_histogram_def open_creat_wronly_def write_file_fold histogram_text_def
      split: option.split)

lemma show_nat_digits: "set (show_nat n) \<subseteq> set ''0123456789''"
proof (induction n rule: show_nat.induct)
  case (1 n)
  have d: "''0123456789'' ! k \<in> set ''0123456789''" if "k < 10" for k
    using that by (intro nth_mem) simp
  show ?case
  proof (cases "n < 10")
    case True
    then show ?thesis using d [of n] by (subst show_nat.simps) simp
  next
    case False
    have "n mod 10 < 10" by simp
    then show ?thesis using 1 False d [of "n mod 10"] by (subst show_nat.simps) simp
  qed
qed

lemma newline_notin_show_int: "CHR 0x0A \<notin> set (show_int n)"
  using show_nat_digits [of "nat n"] show_nat_digits [of "nat (- n)"]
  by (auto simp: show_int_def)

lemma reap_saves:
  assumes "child_status r = Exited code" "find_pipe (child_pid r) (pids s) 0 = Some k"
    "0 < bytesRead r" "open_ok r"
  shows "reap r s = Continues (s\<lparr>numTerminated := numTerminated s + 1,
      files := (files s)(histogram_file (child_pid r) \<mapsto>
        (case files s (histogram_file (child_pid r)) of
           None \<Rightarrow> histogram_text (characterCounts r)
         | Some old \<Rightarrow> histogram_text (characterCounts r)
                         @ drop (length (histogram_text (characterCounts r))) old)),
      trace := trace s @
        [Printf (''Parent caught SIGCHLD from child process ''
           @ show_int (child_pid r) @ ''.\<newline>''),
         Read_pipe k,
         Printf (''Parent read histogram from pipe '' @ show_int (int k) @ '' ''),
         Printf (''and saved to file '' @ histogram_file (child_pid r) @ ''.\<newline>''),
         Close_read k]\<rparr>)"
  using assms
  by (simp add: reap_def log_def Let_def save_histogram_open split: option.split)

lemma letter_not_newline: "k < 26 \<Longrightarrow> ''abcdefghijklmnopqrstuvwxyz'' ! k \<noteq> CHR 0x0A"
proof -
  assume "k < 26"
  then have "''abcdefghijklmnopqrstuvwxyz'' ! k \<in> set ''abcdefghijklmnopqrstuvwxyz''"
    by (intro nth_mem) simp
  then show ?thesis by auto
qed

lemma newlines_histogram_line:
  assumes "k < 26"
  shows "length (filter (\<lambda>c. c = CHR 0x0A) (histogram_line counts k)) = 1"
proof -
  have "filter (\<lambda>c. c = CHR 0x0A) (show_int (sint (counts ! k))) = []"
    using newline_notin_show_int [of "sint (counts ! k)"] by (auto simp: filter_empty_conv)
  then show ?thesis
    using letter_not_newline [OF assms] by (simp add: histogram_line_def)
qed

lemma newlines_histogram_text:
  "length (filter (\<lambda>c. c = CHR 0x0A) (histogram_text counts)) = 26"
proof -
  have "map (\<lambda>k. length (filter (\<lambda>c. c = CHR 0x0A) (histogram_line counts k))) [0..<26] =
        map (\<lambda>k. 1) [0..<26]"
    by (rule map_cong) (simp_all add: newlines_histogram_line)
  also have "\<dots> = replicate 26 1" by (simp only: map_replicate_const) simp
  finally have "sum_list (map (\<lambda>k. length (filter (\<lambda>c. c = CHR 0x0A)
      (histogram_line counts k))) [0..<26]) = 26"
    by (simp only: sum_list_replicate) simp
  then show ?thesis
    by (simp add: histogram_text_def filter_concat length_concat comp_def)
qed

lemma reap_saves_file:
  assumes "child_status r = Exited code" "find_pipe (child_pid r) (pids s) 0 = Some k"
    "0 < bytesRead r" "open_ok r"
  shows "files (state_of (reap r s)) (histogram_file (child_pid r)) =
     Some (case files s (histogram_file (child_pid r)) of
             None \<Rightarrow> histogram_text (characterCounts r)
           | Some old \<Rightarrow> histogram_text (characterCounts r)
                           @ drop (length (histogram_text (characterCounts r))) old)"
  using reap_saves [OF assms] by simp

lemma longer_old_file_keeps_its_tail:
  "files (state_of (reap sample_reaped
      (sample_proc\<lparr>files := [''file4243.hist'' \<mapsto> replicate 104 (CHR ''x'') @ ''stale'']\<rparr>)))
     ''file4243.hist'' =
   Some (''a=2\<newline>b=2\<newline>c=2\<newline>d=0\<newline>e=0\<newline>f=0\<newline>g=0\<newline>h=0\<newline>i=0\<newline>j=0\<newline>k=0\<newline>l=0\<newline>m=0\<newline>n=0\<newline>o=0\<newline>p=0\<newline>q=0\<newline>r=0\<newline>s=0\<newline>t=0\<newline>u=0\<newline>v=0\<newline>w=0\<newline>x=0\<newline>y=0\<newline>z=0\<newline>''
         @ ''stale'')"
proof -
  let ?s = "sample_proc\<lparr>files := [''file4243.hist'' \<mapsto> replicate 104 (CHR ''x'') @ ''stale'']\<rparr>"
  have t: "histogram_text (characterCounts sample_reaped) = ''a=2\<newline>b=2\<newline>c=2\<newline>d=0\<newline>e=0\<newline>f=0\<newline>g=0\<newline>h=0\<newline>i=0\<newline>j=0\<newline>k=0\<newline>l=0\<newline>m=0\<newline>n=0\<newline>o=0\<newline>p=0\<newline>q=0\<newline>r=0\<newline>s=0\<newline>t=0\<newline>u=0\<newline>v=0\<newline>w=0\<newline>x=0\<newline>y=0\<newline>z=0\<newline>''"
    by code_simp
  have n: "histogram_file (child_pid sample_reaped) = ''file4243.hist''"
    by (simp add: histogram_file_def sample_reaped_def show_int_def show_nat.simps)
  have a: "child_status sample_reaped = Exited 0" by (simp add: sample_reaped_def)
  have b: "find_pipe (child_pid sample_reaped) (pids ?s) 0 = Some 1"
    by (simp add: sample_reaped_def sample_proc_def)
  have c: "0 < bytesRead sample_reaped" by (simp add: sample_reaped_def)
  have d: "open_ok sample_reaped" by (simp add: sample_reaped_def)
  have o: "files ?s ''file4243.hist'' = Some (replicate 104 (CHR ''x'') @ ''stale'')" by simp
  have "files (state_of (reap sample_reaped ?s)) ''file4243.hist'' =
     Some (case files ?s ''file4243.hist'' of
             None \<Rightarrow> histogram_text (characterCounts sample_reaped)
           | Some old \<Rightarrow> histogram_text (characterCounts sample_reaped)
                           @ drop (length (histogram_text (characterCounts sample_reaped))) old)"
    using reap_saves_file [OF a b c d] by (simp only: n)
  also have "\<dots> = Some (histogram_text (characterCounts sample_reaped)
      @ drop (length (histogram_text (characterCounts sample_reaped)))
          (replicate 104 (CHR ''x'') @ ''stale''))"
    by (simp only: o option.case)
  also have "length (histogram_text (characterCounts sample_reaped)) = 104"
    by (simp only: t) simp
  also have "drop 104 (replicate 104 (CHR ''x'') @ ''stale'') = ''stale''" by simp
  finally show ?thesis by (simp only: t)
qed

subsection \<open>Passes of the loop that do not depend on the counters\<close>





section \<open>The claims about the handler\<close>



text \<open>
  Claim C6, as the code has it. When the handler reaps a worker that exited normally, finds
  its pid in the table at index \<open>k\<close>, reads data from pipe \<open>k\<close> and can open the
  output file, and no file of that name exists that is longer than the text to write, then
  exactly one file changes: the file \<open>file<pid>.hist\<close>, whose contents become 26 lines
  \<open><letter>=<count>\<close>, each ended by a newline, for \<open>a\<close> to \<open>z\<close> in this order, the
  count of line \<open>k\<close> being entry \<open>k\<close> of the table read from the pipe.
\<close>

theorem received_histogram_is_saved:
  assumes "child_status r = Exited code"
    and "find_pipe (child_pid r) (pids s) 0 = Some k"
    and "0 < bytesRead r" and "open_ok r"
    and "\<forall>old. files s (histogram_file (child_pid r)) = Some old \<longrightarrow>
           length old \<le> length (histogram_text (characterCounts r))"
  shows "\<exists>s'. reap r s = Continues s'
           \<and> files s' = (files s)(histogram_file (child_pid r) \<mapsto>
                           histogram_text (characterCounts r))
           \<and> histogram_file (child_pid r) = ''file'' @ show_int (child_pid r) @ ''.hist''
           \<and> histogram_text (characterCounts r) =
               concat (map (\<lambda>k. (''abcdefghijklmnopqrstuvwxyz'' ! k) # ''=''
                                @ show_int (sint (characterCounts r ! k)) @ ''\<newline>'')
                         [0..<26])
           \<and> length (filter (\<lambda>c. c = CHR 0x0A) (histogram_text (characterCounts r))) = 26"
proof -
  let ?text = "histogram_text (characterCounts r)"
  let ?name = "histogram_file (child_pid r)"
  have c: "(case files s ?name of None \<Rightarrow> ?text
            | Some old \<Rightarrow> ?text @ drop (length ?text) old) = ?text"
    using assms(5) by (simp split: option.split)
  obtain s' where s': "reap r s = Continues s'" "files s' = (files s)(?name \<mapsto> ?text)"
    using reap_saves [OF assms(1-4)] by (simp only: c) simp
  have n: "?name = ''file'' @ show_int (child_pid r) @ ''.hist''"
    by (simp add: histogram_file_def)
  have t: "?text = concat (map (\<lambda>k. (''abcdefghijklmnopqrstuvwxyz'' ! k) # ''=''
                                @ show_int (sint (characterCounts r ! k)) @ ''\<newline>'')
                         [0..<26])"
    by (simp add: histogram_text_def histogram_line_def [abs_def])
  have l: "length (filter (\<lambda>c. c = CHR 0x0A) ?text) = 26"
    by (rule newlines_histogram_text)
  show ?thesis using s' n t l by blast
qed

theorem received_histogram_is_saved_witness:
  "child_status sample_reaped = Exited 0
   \<and> find_pipe (child_pid sample_reaped) (pids sample_proc) 0 = Some 1
   \<and> 0 < bytesRead sample_reaped \<and> open_ok sample_reaped
   \<and> files sample_proc (histogram_file (child_pid sample_reaped)) = None
   \<and> files (state_of (reap sample_reaped sample_proc)) ''file4243.hist'' =
       Some ''a=2\<newline>b=2\<newline>c=2\<newline>d=0\<newline>e=0\<newline>f=0\<newline>g=0\<newline>h=0\<newline>i=0\<newline>j=0\<newline>k=0\<newline>l=0\<newline>m=0\<newline>n=0\<newline>o=0\<newline>p=0\<newline>q=0\<newline>r=0\<newline>s=0\<newline>t=0\<newline>u=0\<newline>v=0\<newline>w=0\<newline>x=0\<newline>y=0\<newline>z=0\<newline>''"
proof -
  have a: "child_status sample_reaped = Exited 0" by (simp add: sample_reaped_def)
  have b: "find_pipe (child_pid sample_reaped) (pids sample_proc) 0 = Some 1"
    by (simp add: sample_reaped_def sample_proc_def)
  have c: "0 < bytesRead sample_reaped" by (simp add: sample_reaped_def)
  have d: "open_ok sample_reaped" by (simp add: sample_reaped_def)
  have e: "files sample_proc (histogram_file (child_pid sample_reaped)) = None"
    by (simp add: sample_proc_def)
  then have f: "\<forall>old. files sample_proc (histogram_file (child_pid sample_reaped)) = Some old \<longrightarrow>
           length old \<le> length (histogram_text (characterCounts sample_reaped))" by simp
  have n: "histogram_file (child_pid sample_reaped) = ''file4243.hist''"
    by (simp add: histogram_file_def sample_reaped_def show_int_def show_nat.simps)
  have t: "concat (map (\<lambda>k. (''abcdefghijklmnopqrstuvwxyz'' ! k) # ''=''
                                @ show_int (sint (characterCounts sample_reaped ! k)) @ ''\<newline>'')
                         [0..<26]) = ''a=2\<newline>b=2\<newline>c=2\<newline>d=0\<newline>e=0\<newline>f=0\<newline>g=0\<newline>h=0\<newline>i=0\<newline>j=0\<newline>k=0\<newline>l=0\<newline>m=0\<newline>n=0\<newline>o=0\<newline>p=0\<newline>q=0\<newline>r=0\<newline>s=0\<newline>t=0\<newline>u=0\<newline>v=0\<newline>w=0\<newline>x=0\<newline>y=0\<newline>z=0\<newline>''"
    by code_simp
  from received_histogram_is_saved [OF a b c d f] obtain s' where
    s': "reap sample_reaped sample_proc = Continues s'"
      "files s' = (files sample_proc)(histogram_file (child_pid sample_reaped) \<mapsto>
                           histogram_text (characterCounts sample_reaped))"
      "histogram_text (characterCounts sample_reaped) =
               concat (map (\<lambda>k. (''abcdefghijklmnopqrstuvwxyz'' ! k) # ''=''
                                @ show_int (sint (characterCounts sample_reaped ! k)) @ ''\<newline>'')
                         [0..<26])"
    by blast
  have "files (state_of (reap sample_reaped sample_proc)) ''file4243.hist'' =
      Some (histogram_text (characterCounts sample_reaped))"
    by (simp add: s'(1,2) n)
  then show ?thesis using a b c d e by (simp only: s'(3) t)
qed

text \<open>
  Claim C6 as it is written promises the file whenever data was received. When \<open>open\<close>
  fails, lines 62 to 65 end the supervisor and no file is written.
\<close>

theorem unopenable_output_saves_nothing:
  "exit_status (reap (sample_reaped\<lparr>open_ok := False\<rparr>) sample_proc) = Some 1
   \<and> files (state_of (reap (sample_reaped\<lparr>open_ok := False\<rparr>) sample_proc)) ''file4243.hist''
       = None"
  by (simp add: reap_def sample_reaped_def sample_proc_def log_def EXIT_FAILURE_def)

text \<open>
  Claim C8. When the handler reaps a process that exited normally and whose pid is in no
  entry of the table of pids, the pass of the loop adds 1 to \<open>numTerminated\<close>, prints the
  two messages and changes nothing else; the handler is not ended, and the loop goes on
  with the terminations that are left.
\<close>

theorem lookup_miss_is_only_reported:
  assumes "0 < child_pid r" and "child_status r = Exited code"
    and "child_pid r \<notin> set (pids s)"
  shows "reap r s =
           Continues (s\<lparr>numTerminated := numTerminated s + 1,
                        trace := trace s @
                          [Printf (''Parent caught SIGCHLD from child process ''
                             @ show_int (child_pid r) @ ''.\<newline>''),
                           Printf (''Error: Pipe for child '' @ show_int (child_pid r)
                             @ '' not found.\<newline>'')]\<rparr>)
       \<and> sigchld_loop (r # rs) s =
           sigchld_loop rs (s\<lparr>numTerminated := numTerminated s + 1,
                        trace := trace s @
                          [Printf (''Parent caught SIGCHLD from child process ''
                             @ show_int (child_pid r) @ ''.\<newline>''),
                           Printf (''Error: Pipe for child '' @ show_int (child_pid r)
                             @ '' not found.\<newline>'')]\<rparr>)"
proof -
  have "find_pipe (child_pid r) (pids s) 0 = None"
    using assms(3) by (simp add: find_pipe_None_iff)
  then have a: "reap r s =
           Continues (s\<lparr>numTerminated := numTerminated s + 1,
                        trace := trace s @
                          [Printf (''Parent caught SIGCHLD from child process ''
                             @ show_int (child_pid r) @ ''.\<newline>''),
                           Printf (''Error: Pipe for child '' @ show_int (child_pid r)
                             @ '' not found.\<newline>'')]\<rparr>)"
    using assms(2) by (simp add: reap_def log_def)
  then show ?thesis using assms(1) by simp
qed

theorem lookup_miss_is_only_reported_witness:
  "0 < child_pid (sample_reaped\<lparr>child_pid := 5000\<rparr>)
   \<and> child_status (sample_reaped\<lparr>child_pid := 5000\<rparr>) = Exited 0
   \<and> child_pid (sample_reaped\<lparr>child_pid := 5000\<rparr>) \<notin> set (pids sample_proc)
   \<and> reap (sample_reaped\<lparr>child_pid := 5000\<rparr>) sample_proc =
       Continues (sample_proc\<lparr>numTerminated := 1,
         trace := [Printf ''Parent caught SIGCHLD from child process 5000.\<newline>'',
                   Printf ''Error: Pipe for child 5000 not found.\<newline>'']\<rparr>)
   \<and> sigchld_loop [sample_reaped\<lparr>child_pid := 5000\<rparr>, sample_reaped\<lparr>bytesRead := 0\<rparr>]
         sample_proc =
       Continues (sample_proc\<lparr>numTerminated := 2,
         trace := [Printf ''Parent caught SIGCHLD from child process 5000.\<newline>'',
                   Printf ''Error: Pipe for child 5000 not found.\<newline>'',
                   Printf ''Parent caught SIGCHLD from child process 4243.\<newline>'',
                   Read_pipe 1, Close_read 1]\<rparr>)"
proof -
  let ?r = "sample_reaped\<lparr>child_pid := 5000\<rparr>"
  have a: "0 < child_pid ?r" by simp
  have b: "child_status ?r = Exited 0" by (simp add: sample_reaped_def)
  have c: "child_pid ?r \<notin> set (pids sample_proc)" by (simp add: sample_proc_def)
  have n: "show_int 5000 = ''5000''" "show_int 4243 = ''4243''"
    by (simp_all add: show_int_def show_nat.simps)
  note t = lookup_miss_is_only_reported [OF a b c, of "[sample_reaped\<lparr>bytesRead := 0\<rparr>]"]
  have d: "reap ?r sample_proc =
       Continues (sample_proc\<lparr>numTerminated := 1,
         trace := [Printf ''Parent caught SIGCHLD from child process 5000.\<newline>'',
                   Printf ''Error: Pipe for child 5000 not found.\<newline>'']\<rparr>)"
    by (simp only: t [THEN conjunct1]) (simp add: n sample_proc_def)
  have e: "sigchld_loop [?r, sample_reaped\<lparr>bytesRead := 0\<rparr>] sample_proc =
       Continues (sample_proc\<lparr>numTerminated := 2,
         trace := [Printf ''Parent caught SIGCHLD from child process 5000.\<newline>'',
                   Printf ''Error: Pipe for child 5000 not found.\<newline>'',
                   Printf ''Parent caught SIGCHLD from child process 4243.\<newline>'',
                   Read_pipe 1, Close_read 1]\<rparr>)"
    by (simp only: t [THEN conjunct2])
       (simp add: n sample_proc_def sample_reaped_def reap_def log_def)
  show ?thesis using a b c d e by blast
qed

text \<open>
  Claim C10. When the handler has read data for a worker and cannot open the output file,
  the supervisor exits at once with \<open>EXIT_FAILURE\<close>, whatever terminations are left to
  handle; and this is the only way in which a pass of the loop ends the supervisor.
\<close>

theorem output_open_failure_ends_supervisor:
  assumes "0 < child_pid r" and "child_status r = Exited code"
    and "find_pipe (child_pid r) (pids s) 0 = Some k"
    and "0 < bytesRead r" and "\<not> open_ok r"
  shows "sigchld (r # rs) signal_ok s =
           Exits EXIT_FAILURE
             (s\<lparr>numTerminated := numTerminated s + 1,
                trace := trace s @
                  [Printf (''Parent caught SIGCHLD from child process ''
                     @ show_int (child_pid r) @ ''.\<newline>''),
                   Read_pipe k,
                   Printf (''Parent read histogram from pipe '' @ show_int (int k) @ '' ''),
                   Stderr ''Error opening file'']\<rparr>)
       \<and> EXIT_FAILURE \<noteq> 0
       \<and> (\<forall>r' t c t'. reap r' t = Exits c t' \<longrightarrow>
             c = EXIT_FAILURE \<and> (\<exists>code'. child_status r' = Exited code')
             \<and> find_pipe (child_pid r') (pids t) 0 \<noteq> None
             \<and> 0 < bytesRead r' \<and> \<not> open_ok r')"
proof -
  have a: "reap r s =
           Exits EXIT_FAILURE
             (s\<lparr>numTerminated := numTerminated s + 1,
                trace := trace s @
                  [Printf (''Parent caught SIGCHLD from child process ''
                     @ show_int (child_pid r) @ ''.\<newline>''),
                   Read_pipe k,
                   Printf (''Parent read histogram from pipe '' @ show_int (int k) @ '' ''),
                   Stderr ''Error opening file'']\<rparr>)"
    using assms by (simp add: reap_def log_def)
  have b: "sigchld (r # rs) signal_ok s = reap r s"
    using assms(1) by (simp add: sigchld_def a)
  have c: "c = EXIT_FAILURE \<and> (\<exists>code'. child_status r' = Exited code')
             \<and> find_pipe (child_pid r') (pids t) 0 \<noteq> None
             \<and> 0 < bytesRead r' \<and> \<not> open_ok r'"
    if "reap r' t = Exits c t'" for r' t c t'
    using that
    by (auto simp: reap_def log_def Let_def split: wstatus.splits option.splits if_splits)
  have d: "EXIT_FAILURE \<noteq> 0" by (simp add: EXIT_FAILURE_def)
  show ?thesis using a b c d by (simp only:) blast
qed

theorem output_open_failure_ends_supervisor_witness:
  "0 < child_pid (sample_reaped\<lparr>open_ok := False\<rparr>)
   \<and> child_status (sample_reaped\<lparr>open_ok := False\<rparr>) = Exited 0
   \<and> find_pipe (child_pid (sample_reaped\<lparr>open_ok := False\<rparr>)) (pids sample_proc) 0 = Some 1
   \<and> 0 < bytesRead (sample_reaped\<lparr>open_ok := False\<rparr>)
   \<and> \<not> open_ok (sample_reaped\<lparr>open_ok := False\<rparr>)
   \<and> exit_status (sigchld [sample_reaped\<lparr>open_ok := False\<rparr>,
                            sample_reaped\<lparr>child_pid := 4242\<rparr>] True sample_proc) = Some 1
   \<and> numTerminated (state_of (sigchld [sample_reaped\<lparr>open_ok := False\<rparr>,
                            sample_reaped\<lparr>child_pid := 4242\<rparr>] True sample_proc)) = 1
   \<and> (\<exists>t'. reap (sample_reaped\<lparr>open_ok := False\<rparr>) sample_proc = Exits EXIT_FAILURE t')"
proof -
  let ?r = "sample_reaped\<lparr>open_ok := False\<rparr>"
  have a: "0 < child_pid ?r" by (simp add: sample_reaped_def)
  have b: "child_status ?r = Exited 0" by (simp add: sample_reaped_def)
  have c: "find_pipe (child_pid ?r) (pids sample_proc) 0 = Some 1"
    by (simp add: sample_reaped_def sample_proc_def)
  have d: "0 < bytesRead ?r" by (simp add: sample_reaped_def)
  have e: "\<not> open_ok ?r" by simp
  note t = output_open_failure_ends_supervisor [OF a b c d e,
      of "[sample_reaped\<lparr>child_pid := 4242\<rparr>]" True, THEN conjunct1]
  note u = output_open_failure_ends_supervisor [OF a b c d e,
      of "[sample_reaped\<lparr>child_pid := 4242\<rparr>]" True, THEN conjunct2, THEN conjunct2,
      rule_format]
  have x: "exit_status (sigchld [?r, sample_reaped\<lparr>child_pid := 4242\<rparr>] True sample_proc) = Some 1"
    by (simp only: t) (simp add: EXIT_FAILURE_def)
  have n: "numTerminated (state_of (sigchld [?r, sample_reaped\<lparr>child_pid := 4242\<rparr>] True
      sample_proc)) = 1"
    by (simp only: t) (simp add: sample_proc_def)
  have "\<exists>code t'. reap ?r sample_proc = Exits code t'"
    using a b c d e by (simp add: reap_def log_def)
  then obtain code t' where k: "reap ?r sample_proc = Exits code t'" by blast
  from u [OF k] have "code = EXIT_FAILURE" by simp
  with k have y: "\<exists>t'. reap ?r sample_proc = Exits EXIT_FAILURE t'" by blast
  show ?thesis using a b c d e x n y by blast
qed

section \<open>Properties of \<open>main\<close> and of a run\<close>

subsection \<open>The child of a \<open>SIG\<close> argument\<close>




lemma SIG_worker_timeout:
  assumes "pipe_ok (env i)" "fork_result (env i) = In_child" "sigint_after (env i) = None"
  shows "main_loop env i (''SIG'' # rest) w =
     main_loop env (i + 1) rest (w\<lparr>trace :=
       [Printf (''Child process started for SIG\<newline>''), Close_read (i - 1),
        Printf (''Child process (PID: '' @ show_int (self_pid (env i))
          @ '') waiting for signal.\<newline>''),
        Sleep 10]\<rparr>)"
  using assms by (simp add: log_def)

subsection \<open>Closes of pipe ends\<close>


lemma count_loop_length: "count_loop Data Size i h = Inr h' \<Longrightarrow> length h' = length h"
proof (induction Data Size i h rule: count_loop.induct)
  case (1 Data Size i histogram)
  show ?case
  proof (cases "sint i < sint Size")
    case False
    with 1(2) show ?thesis by (subst (asm) count_loop.simps) simp
  next
    case True
    show ?thesis
    proof (cases "0 \<le> sint i \<and> nat (sint i) < length Data")
      case False
      with True 1(2) show ?thesis by (subst (asm) count_loop.simps) simp
    next
      case inb: True
      with True 1(2) have "count_loop Data Size (i + 1)
          (count_byte (Data ! nat (sint i)) histogram) = Inr h'"
        by (subst (asm) count_loop.simps) simp
      from 1(1) [OF True inb this] show ?thesis by (simp add: length_count_byte)
    qed
  qed
qed

lemma Histogram_length:
  assumes "Histogram malloc_ok Data Size = Inr h"
  shows "length h = 26"
proof (cases malloc_ok)
  case True
  with assms have "count_loop Data Size 0 (replicate 26 0) = Inr h" by (simp add: Histogram_def)
  from count_loop_length [OF this] show ?thesis by simp
next
  case False
  with assms show ?thesis by (simp add: Histogram_def)
qed

text \<open>
  A worker sends the whole table of 104 bytes, in the one \<open>write\<close> of line 183, or
  nothing; one that exits with a status other than 0 has sent nothing.
\<close>

lemma worker_file_sends:
  "\<exists>c w'. worker_file i arg e w = Exits c w'
     \<and> (bytes_sent k (trace w') = bytes_sent k (trace w)
        \<or> c = 0 \<and> k = i - 1 \<and> bytes_sent k (trace w') = bytes_sent k (trace w) + 104)"
proof (cases "Histogram (malloc_hist_ok e) (the (open_result e))
    (of_nat (length (the (open_result e))))")
  case (Inl f)
  then show ?thesis
    by (cases "f = Alloc_failed")
       (auto simp: worker_file_def log_def Let_def bytes_sent_def split: option.splits)
next
  case (Inr h)
  from Histogram_length [OF this] have "length h = 26" .
  with Inr show ?thesis
    by (auto simp: worker_file_def log_def Let_def bytes_sent_def
        split: option.splits if_splits)
qed

lemma worker_sends_table_or_nothing:
  assumes "arg \<noteq> ''SIG''" "pipe_ok (env i)" "fork_result (env i) = In_child"
  shows "\<exists>code w'. main_loop env i (arg # rest) w = Exits code w'
     \<and> (bytes_sent k (trace w') = 0
        \<or> code = 0 \<and> k = i - 1 \<and> bytes_sent k (trace w') = 104)"
proof -
  let ?w = "log [Printf (''Child process started for '' @ arg @ ''\<newline>''), Close_read (i - 1)]
      (w\<lparr>trace := []\<rparr>)"
  have m: "main_loop env i (arg # rest) w = worker_file i arg (env i) ?w"
    using assms by (simp add: log_def)
  have t: "bytes_sent k (trace ?w) = 0" by (simp add: log_def bytes_sent_def)
  from worker_file_sends [of i arg "env i" ?w k] show ?thesis
    by (simp only: m t) simp
qed






subsection \<open>The counters in a run\<close>

lemma reap_counters:
  "numTerminated (state_of (reap r s)) = numTerminated s + 1
   \<and> numChildren (state_of (reap r s)) = numChildren s"
  by (simp add: reap_def log_def Let_def split: wstatus.splits option.splits)

lemma reap_exit_status: "reap r s = Exits code s' \<Longrightarrow> code = EXIT_FAILURE"
  by (auto simp: reap_def log_def Let_def split: wstatus.splits option.splits if_splits)

lemma parent_statement_counters:
  "numTerminated (parent_statement i arg pid n s) = numTerminated s
   \<and> numChildren (parent_statement i arg pid n s) =
       numChildren s + (if n = 2 then 1 else 0)"
  by (cases "(i, arg, pid, n)" rule: parent_statement.cases)
     (simp_all add: parent_close_def parent_record_def parent_count_def parent_kill_def log_def)

lemma step_balanced:
  assumes "step l c = Some c'" "balanced c"
  shows "balanced c'"
proof (cases l)
  case (Spawn pid)
  with assms show ?thesis
    by (auto simp: balanced_def uncounted_def log_def split: list.splits if_splits)
next
  case (Spawn_fails b)
  with assms show ?thesis
    by (auto simp: balanced_def uncounted_def log_def split: list.splits if_splits)
next
  case Parent_statement
  with assms show ?thesis
    by (auto simp: balanced_def uncounted_def parent_statement_counters
        split: option.splits if_splits)
next
  case Enter_wait
  with assms show ?thesis
    by (auto simp: balanced_def uncounted_def log_def split: if_splits)
next
  case Test_wait
  with assms show ?thesis
    by (auto simp: balanced_def uncounted_def wait_loop_def log_def split: if_splits)
next
  case Signal_arrives
  with assms show ?thesis
    by (auto simp: balanced_def uncounted_def split: if_splits)
next
  case (Reap r)
  from assms(2) have no: "others c = []" by (simp add: balanced_def)
  with Reap assms(1) have en: "child_pid r \<in> set (unreaped c)"
    and c': "sup c' = state_of (reap r (sup c))" "unreaped c' = remove1 (child_pid r) (unreaped c)"
      "pending c' = pending c" "others c' = []"
    by (auto split: if_splits outcome.splits)
  from en have "length (unreaped c) = Suc (length (remove1 (child_pid r) (unreaped c)))"
    by (simp add: length_remove1) (metis length_pos_if_in_set Suc_pred)
  then show ?thesis
    using assms(2) c' reap_counters [of r "sup c"] by (simp add: balanced_def uncounted_def)
next
  case (Handler_returns ok)
  with assms show ?thesis
    by (auto simp: balanced_def uncounted_def log_def split: if_splits)
qed

lemma run_balanced: "run ls c = Some c' \<Longrightarrow> balanced c \<Longrightarrow> balanced c'"
proof (induction ls arbitrary: c)
  case Nil
  then show ?case by simp
next
  case (Cons l ls)
  then show ?case by (auto split: option.splits dest: step_balanced)
qed

lemma start_balanced: "balanced (start argv fs [])"
  by (simp add: balanced_def uncounted_def start_def main_start_def log_def Let_def)

lemma balanced_le:
  assumes "balanced c"
  shows "numTerminated (sup c) \<le> numChildren (sup c)
       \<or> (uncounted c \<and> numTerminated (sup c) = numChildren (sup c) + 1)"
  using assms by (auto simp: balanced_def split: if_splits)

lemma step_settled:
  assumes "step l c = Some c'" "settled c" "balanced c"
  shows "settled c'"
proof (cases l)
  case (Spawn pid)
  with assms show ?thesis
    by (auto simp: settled_def in_main_def log_def split: list.splits if_splits)
next
  case (Spawn_fails b)
  with assms show ?thesis
    by (auto simp: settled_def in_main_def log_def EXIT_FAILURE_def split: list.splits if_splits)
next
  case Parent_statement
  with assms show ?thesis
    by (auto simp: settled_def in_main_def split: option.splits if_splits)
next
  case Enter_wait
  with assms show ?thesis
    by (auto simp: settled_def in_main_def log_def split: if_splits)
next
  case Test_wait
  from assms(2) have "waiting c \<longrightarrow> \<not> uncounted c" by (auto simp: settled_def uncounted_def)
  with balanced_le [OF assms(3)]
  have "waiting c \<longrightarrow> numTerminated (sup c) \<le> numChildren (sup c)" by auto
  with Test_wait assms(1,2) show ?thesis
    by (auto simp: settled_def in_main_def wait_loop_def log_def split: if_splits)
next
  case Signal_arrives
  with assms show ?thesis
    by (auto simp: settled_def in_main_def split: if_splits)
next
  case (Reap r)
  with assms show ?thesis
    by (auto simp: settled_def EXIT_FAILURE_def split: if_splits outcome.splits
        dest!: reap_exit_status)
next
  case (Handler_returns ok)
  with assms show ?thesis
    by (auto simp: settled_def log_def EXIT_FAILURE_def split: if_splits)
qed

lemma run_settled:
  "run ls c = Some c' \<Longrightarrow> settled c \<Longrightarrow> balanced c \<Longrightarrow> settled c' \<and> balanced c'"
proof (induction ls arbitrary: c)
  case Nil
  then show ?case by simp
next
  case (Cons l ls)
  then show ?case by (auto split: option.splits dest: step_balanced step_settled)
qed

lemma start_settled: "settled (start argv fs inherited)"
  by (simp add: settled_def start_def main_start_def log_def Let_def EXIT_FAILURE_def)

lemma first_pid_recorded: "(replicate 100 (0::int))[0 := pid] = pid # replicate 99 0"
proof -
  have "replicate 100 (0::int) = 0 # replicate 99 0"
    using replicate_Suc [of 99 "0::int"] by simp
  then show ?thesis by simp
qed

subsection \<open>The table of pids and the pipe ends in a run\<close>

















subsection \<open>A run does what \<open>main_loop\<close> and \<open>sigchld\<close> do\<close>

lemma run_append: "run (ls @ ms) c = (case run ls c of Some c' \<Rightarrow> run ms c' | None \<Rightarrow> None)"
  by (induction ls arbitrary: c) (auto split: option.splits)

lemma run_iteration:
  assumes "in_main c" "pending c = None" "args_left c = arg # rest" "0 < pid"
    "pid \<notin> set (unreaped c)" "pid \<notin> set (others c)"
  shows "run [Spawn pid, Parent_statement, Parent_statement, Parent_statement, Parent_statement] c =
     Some (c\<lparr>sup := parent_kill arg pid (parent_count (parent_record (loop_i c) pid
                  (parent_close (loop_i c) arg pid
                     (log [Pipe (loop_i c - 1), Fork]
                        (log [Printf (''Processing file/command '' @ arg @ ''...\<newline>'')]
                           (sup c)))))),
            args_left := rest, loop_i := loop_i c + 1,
            unreaped := pid # unreaped c, forked := pid # forked c\<rparr>)"
  using assms by (simp add: in_main_def log_def)

lemma run_uninterrupted:
  assumes "in_main c" "pending c = None" "\<not> waiting c" "length ps = length (args_left c)"
    "distinct ps" "\<forall>p \<in> set ps. 0 < p \<and> p \<notin> set (unreaped c) \<and> p \<notin> set (others c)"
    "\<forall>j < length ps. pipe_ok (env (loop_i c + j)) \<and> fork_result (env (loop_i c + j)) = In_parent (ps ! j)"
  shows "\<exists>c'. run (uninterrupted ps) c = Some c'
           \<and> main_loop env (loop_i c) (args_left c) (sup c) = Continues (sup c')
           \<and> waiting c' \<and> in_main c'"
  using assms
proof (induction ps arbitrary: c)
  case Nil
  then show ?case by (simp add: in_main_def)
next
  case (Cons p ps)
  from Cons.prems(4) obtain arg rest where a: "args_left c = arg # rest"
    by (cases "args_left c") simp_all
  let ?c = "c\<lparr>sup := parent_kill arg p (parent_count (parent_record (loop_i c) p
                  (parent_close (loop_i c) arg p
                     (log [Pipe (loop_i c - 1), Fork]
                        (log [Printf (''Processing file/command '' @ arg @ ''...\<newline>'')]
                           (sup c)))))),
            args_left := rest, loop_i := loop_i c + 1,
            unreaped := p # unreaped c, forked := p # forked c\<rparr>"
  have it: "run [Spawn p, Parent_statement, Parent_statement, Parent_statement, Parent_statement] c
      = Some ?c"
    using Cons.prems(1,2) a Cons.prems(6) by (intro run_iteration) simp_all
  have e: "pipe_ok (env (loop_i c))" "fork_result (env (loop_i c)) = In_parent p"
    using Cons.prems(7) by force+
  have e': "\<forall>j < length ps. pipe_ok (env (loop_i ?c + j))
      \<and> fork_result (env (loop_i ?c + j)) = In_parent (ps ! j)"
  proof (intro allI impI)
    fix j assume "j < length ps"
    then have "Suc j < length (p # ps)" by simp
    with Cons.prems(7) have "pipe_ok (env (loop_i c + Suc j))
      \<and> fork_result (env (loop_i c + Suc j)) = In_parent ((p # ps) ! Suc j)" by blast
    then show "pipe_ok (env (loop_i ?c + j)) \<and> fork_result (env (loop_i ?c + j)) = In_parent (ps ! j)"
      by simp
  qed
  have "\<exists>c'. run (uninterrupted ps) ?c = Some c'
           \<and> main_loop env (loop_i ?c) (args_left ?c) (sup ?c) = Continues (sup c')
           \<and> waiting c' \<and> in_main c'"
    using Cons.prems(1,2,3,4,5,6) a e'
    by (intro Cons.IH) (auto simp: in_main_def)
  then obtain c' where c': "run (uninterrupted ps) ?c = Some c'"
    "main_loop env (loop_i ?c) (args_left ?c) (sup ?c) = Continues (sup c')"
    "waiting c'" "in_main c'" by blast
  have "run (uninterrupted (p # ps)) c = Some c'"
    using it c'(1) by (simp only: uninterrupted.simps run_append) simp
  moreover have "main_loop env (loop_i c) (args_left c) (sup c) = Continues (sup c')"
    using c'(2) e by (simp add: a)
  ultimately show ?case using c'(3,4) by blast
qed


lemma run_reaps:
  assumes "run (map Reap rs) c = Some c'" "status c = None"
  shows "sigchld_loop rs (sup c) =
     (case status c' of None \<Rightarrow> Continues (sup c') | Some code \<Rightarrow> Exits code (sup c'))"
  using assms
proof (induction rs arbitrary: c)
  case Nil
  then show ?case by simp
next
  case (Cons r rs)
  from Cons.prems(1) obtain d where d: "step (Reap r) c = Some d" "run (map Reap rs) d = Some c'"
    by (auto split: option.splits)
  from d(1) have pos: "0 < child_pid r" by (simp split: if_splits)
  show ?case
  proof (cases "reap r (sup c)")
    case (Continues s)
    with d(1) have "sup d = s" "status d = None" using Cons.prems(2)
      by (auto split: if_splits)
    with Cons.IH [OF d(2)] Continues pos show ?thesis by simp
  next
    case (Exits code s)
    with d(1) have e: "sup d = s" "status d = Some code" by (auto split: if_splits)
    have "rs = []"
    proof (cases rs)
      case (Cons r' rs')
      with d(2) e(2) show ?thesis by (simp split: option.splits)
    qed simp
    with d(2) e Exits pos show ?thesis by simp
  next
    case (Killed_by_signal s)
    with d(1) show ?thesis by (simp split: if_splits)
  qed
qed

lemma run_handler:
  assumes "run (Signal_arrives # map Reap rs @ [Handler_returns signal_ok]) c = Some c'"
  shows "sigchld rs signal_ok (sup c) =
     (case status c' of None \<Rightarrow> Continues (sup c') | Some code \<Rightarrow> Exits code (sup c'))"
proof -
  from assms obtain d e where d: "step Signal_arrives c = Some d"
    and e: "run (map Reap rs) d = Some e" and c': "step (Handler_returns signal_ok) e = Some c'"
    by (auto simp: run_append split: option.splits)
  from d have sd: "sup d = sup c" "status d = None" by (auto simp: in_main_def split: if_splits)
  from c' have se: "status e = None" by (simp split: if_splits)
  from run_reaps [OF e sd(2)] have "sigchld_loop rs (sup c) = Continues (sup e)"
    by (simp add: sd se)
  with c' show ?thesis
    by (auto simp: sigchld_def split: if_splits)
qed

section \<open>The claims about \<open>main\<close> and about a run\<close>

text \<open>
  Claim C3, as the code has it, for a supervisor that has no child when \<open>main\<close> starts.
  In every run of the supervisor \<open>numTerminated\<close> is at most
  \<open>numChildren\<close>, except between a \<open>fork\<close> and line 202 for that child, where it can be
  \<open>numChildren + 1\<close> (the child has terminated and was reaped before it was counted). From
  line 213 on \<open>numTerminated \<le> numChildren\<close> holds; a test of the wait loop ends the
  loop, with status 0, exactly when the two counters are equal, and goes on waiting exactly
  when \<open>numTerminated < numChildren\<close>; and the supervisor returns 0 only with equal
  counters and when every child that it forked has been reaped.
\<close>

theorem counters_in_every_run:
  assumes "run ls (start argv fs []) = Some c"
  shows "(numTerminated (sup c) \<le> numChildren (sup c)
            \<or> (uncounted c \<and> numTerminated (sup c) = numChildren (sup c) + 1))
       \<and> (waiting c \<longrightarrow> numTerminated (sup c) \<le> numChildren (sup c))
       \<and> (in_main c \<and> waiting c \<longrightarrow>
            (\<exists>c'. step Test_wait c = Some c'
               \<and> (status c' = Some 0 \<longleftrightarrow> numTerminated (sup c) = numChildren (sup c))
               \<and> (status c' = None \<longleftrightarrow> numTerminated (sup c) < numChildren (sup c))))
       \<and> (status c = Some 0 \<longrightarrow>
            numTerminated (sup c) = numChildren (sup c) \<and> unreaped c = [])"
proof -
  from run_settled [OF assms start_settled start_balanced]
  have s: "settled c" and b: "balanced c" by simp_all
  note le = balanced_le [OF b]
  from s have "waiting c \<longrightarrow> \<not> uncounted c" by (auto simp: settled_def uncounted_def)
  with le have w: "waiting c \<longrightarrow> numTerminated (sup c) \<le> numChildren (sup c)" by auto
  have t: "in_main c \<and> waiting c \<longrightarrow>
            (\<exists>c'. step Test_wait c = Some c'
               \<and> (status c' = Some 0 \<longleftrightarrow> numTerminated (sup c) = numChildren (sup c))
               \<and> (status c' = None \<longleftrightarrow> numTerminated (sup c) < numChildren (sup c)))"
    using w by (auto simp: wait_loop_def in_main_def)
  from s b have z: "status c = Some 0 \<longrightarrow>
      numTerminated (sup c) = numChildren (sup c) \<and> unreaped c = []"
    by (auto simp: settled_def balanced_def uncounted_def)
  show ?thesis using le w t z by blast
qed

text \<open>
  A run in which the only worker fails at once and is reaped after lines 199 to 208, and the
  second test of the wait loop returns 0 with both counters 1.
\<close>

theorem counters_in_every_run_witness:
  "\<exists>c c'. run [Spawn 4242, Parent_statement, Parent_statement, Parent_statement,
             Parent_statement, Enter_wait, Test_wait, Signal_arrives,
             Reap (sample_reaped\<lparr>child_pid := 4242, child_status := Exited 1, bytesRead := 0\<rparr>),
             Handler_returns True]
          (start [''./parallel'', ''missing.txt''] Map.empty []) = Some c
      \<and> in_main c \<and> waiting c \<and> counters c = (1, 1)
      \<and> step Test_wait c = Some c' \<and> status c' = Some 0
      \<and> run [Test_wait] c = Some c'
      \<and> numTerminated (sup c') = numChildren (sup c') \<and> unreaped c' = []"
proof -
  let ?ls = "[Spawn 4242, Parent_statement, Parent_statement, Parent_statement,
             Parent_statement, Enter_wait, Test_wait, Signal_arrives,
             Reap (sample_reaped\<lparr>child_pid := 4242, child_status := Exited 1, bytesRead := 0\<rparr>),
             Handler_returns True]"
  let ?start = "start [''./parallel'', ''missing.txt''] Map.empty []"
  have "\<exists>c. run ?ls ?start = Some c \<and> in_main c \<and> waiting c \<and> counters c = (1, 1)"
    by (simp add: start_def main_start_def MAX_FILES_def log_def in_main_def reap_def
        counters_def sample_reaped_def first_pid_recorded wait_loop_def
        parent_close_def parent_record_def parent_count_def parent_kill_def)
  then obtain c where c: "run ?ls ?start = Some c" "in_main c" "waiting c"
    "counters c = (1, 1)" by blast
  from c(4) have eq: "numTerminated (sup c) = numChildren (sup c)" by (simp add: counters_def)
  from counters_in_every_run [OF c(1)] c(2,3) eq
  obtain c' where c': "step Test_wait c = Some c'" "status c' = Some 0" by blast
  have r: "run (?ls @ [Test_wait]) ?start = Some c'"
    using c(1) c'(1) by (simp only: run_append) simp
  from counters_in_every_run [OF r] c'(2)
  have "numTerminated (sup c') = numChildren (sup c') \<and> unreaped c' = []" by blast
  moreover have "run [Test_wait] c = Some c'" using c'(1) by simp
  ultimately show ?thesis using c c' by blast
qed

text \<open>
  Claim C3 as it is written has \<open>numTerminated \<le> numChildren\<close> at every point. After
  the \<open>fork\<close> for \<open>missing.txt\<close> the child fails to open its file and exits; when
  \<open>SIGCHLD\<close> arrives before line 202, the handler makes \<open>numTerminated = 1\<close> while
  \<open>numChildren\<close> is still 0.
\<close>

theorem child_reaped_before_it_is_counted:
  "map_option counters
     (run [Spawn 4242, Signal_arrives,
           Reap (sample_reaped\<lparr>child_pid := 4242, child_status := Exited 1, bytesRead := 0\<rparr>)]
        (start [''./parallel'', ''missing.txt''] Map.empty [])) = Some (1, 0)"
proof -
  have f: "find_pipe 4242 (replicate 100 0) 0 = None" by (simp add: find_pipe_None_iff)
  show ?thesis
    by (simp add: start_def main_start_def MAX_FILES_def log_def in_main_def reap_def
        counters_def sample_reaped_def f)
qed

text \<open>
  The condition on the children of the process is needed: \<open>waitpid(-1, ...)\<close> reports
  a child that the process had before \<open>main\<close> started, and line 39 counts it. With one
  such child, 777, the wait loop returns 0 while the worker 4242 is still running; with
  two, \<open>numTerminated\<close> is 2 and \<open>numChildren\<close> is 1 in the wait loop.
\<close>

lemma inherited_child_ends_wait_early:
  "map_option (\<lambda>c. (status c, unreaped c, counters c))
     (run [Spawn 4242, Parent_statement, Parent_statement, Parent_statement,
           Parent_statement, Enter_wait, Signal_arrives,
           Reap (sample_reaped\<lparr>child_pid := 777\<rparr>), Handler_returns True, Test_wait]
        (start [''./parallel'', ''f.txt''] Map.empty [777])) = Some (Some 0, [4242], (1, 1))"
  "map_option (\<lambda>c. (waiting c, unreaped c, counters c))
     (run [Spawn 4242, Parent_statement, Parent_statement, Parent_statement,
           Parent_statement, Enter_wait, Signal_arrives,
           Reap (sample_reaped\<lparr>child_pid := 777\<rparr>),
           Reap (sample_reaped\<lparr>child_pid := 778\<rparr>), Handler_returns True]
        (start [''./parallel'', ''f.txt''] Map.empty [777, 778])) = Some (True, [4242], (2, 1))"
proof -
  have p: "find_pipe 777 (replicate 99 0) (Suc 0) = None"
    "find_pipe 778 (replicate 99 0) (Suc 0) = None"
    by (simp_all add: find_pipe_None_iff)
  show "map_option (\<lambda>c. (status c, unreaped c, counters c))
     (run [Spawn 4242, Parent_statement, Parent_statement, Parent_statement,
           Parent_statement, Enter_wait, Signal_arrives,
           Reap (sample_reaped\<lparr>child_pid := 777\<rparr>), Handler_returns True, Test_wait]
        (start [''./parallel'', ''f.txt''] Map.empty [777])) = Some (Some 0, [4242], (1, 1))"
    by (simp add: start_def main_start_def MAX_FILES_def log_def in_main_def reap_def
        counters_def sample_reaped_def first_pid_recorded wait_loop_def p
        parent_close_def parent_record_def parent_count_def parent_kill_def)
  show "map_option (\<lambda>c. (waiting c, unreaped c, counters c))
     (run [Spawn 4242, Parent_statement, Parent_statement, Parent_statement,
           Parent_statement, Enter_wait, Signal_arrives,
           Reap (sample_reaped\<lparr>child_pid := 777\<rparr>),
           Reap (sample_reaped\<lparr>child_pid := 778\<rparr>), Handler_returns True]
        (start [''./parallel'', ''f.txt''] Map.empty [777, 778])) = Some (True, [4242], (2, 1))"
    by (simp add: start_def main_start_def MAX_FILES_def log_def in_main_def reap_def
        counters_def sample_reaped_def first_pid_recorded wait_loop_def p
        parent_close_def parent_record_def parent_count_def parent_kill_def)
qed

text \<open>
  Claim C5. When \<open>main\<close> gets no argument besides the program name, or more than
  \<open>MAX_FILES\<close> of them, it exits with \<open>EXIT_FAILURE\<close>, which is not 0, and all it has done
  is print two messages: no handler is registered, no pipe is made, no process is forked,
  and the files are as they were.
\<close>

theorem bad_argument_count_exits_first:
  assumes "length argv = 1 \<or> MAX_FILES + 1 < length argv"
  shows "\<exists>s. main argv env fs = Exits EXIT_FAILURE s \<and> EXIT_FAILURE \<noteq> 0
           \<and> list_all is_message (trace s) \<and> length (trace s) = 2
           \<and> files s = fs \<and> numChildren s = 0 \<and> pids s = replicate MAX_FILES 0"
  using assms
  by (auto simp: main_def main_start_def log_def EXIT_FAILURE_def Let_def)

theorem bad_argument_count_exits_first_witness:
  "length [''./parallel''] = 1
   \<and> main [''./parallel''] (\<lambda>i. sample_env) Map.empty =
       Exits 1 \<lparr>pids = replicate 100 0, numChildren = 0, numTerminated = 0, files = Map.empty,
                 trace = [Printf ''Starting program. Number of files provided: 0\<newline>'',
                          Printf ''Error: No input files provided.\<newline>'']\<rparr>
   \<and> MAX_FILES + 1 < length (''./parallel'' # replicate 101 ''f.txt'')
   \<and> exit_status (main (''./parallel'' # replicate 101 ''f.txt'') (\<lambda>i. sample_env) Map.empty)
       = Some 1
   \<and> trace (state_of (main (''./parallel'' # replicate 101 ''f.txt'') (\<lambda>i. sample_env)
         Map.empty)) =
       [Printf ''Starting program. Number of files provided: 101\<newline>'',
        Printf ''Error: Too many input files provided. Maximum allowed is 100.\<newline>'']"
proof -
  have a: "length [''./parallel''] = 1 \<or> MAX_FILES + 1 < length [''./parallel'']" by simp
  have b: "length (''./parallel'' # replicate 101 ''f.txt'') = 1
      \<or> MAX_FILES + 1 < length (''./parallel'' # replicate 101 ''f.txt'')"
    by (simp add: MAX_FILES_def)
  have n: "show_int 0 = ''0''" "show_int 101 = ''101''" "show_int 100 = ''100''"
    by (simp_all add: show_int_def show_nat.simps)
  from bad_argument_count_exits_first [OF a, of "\<lambda>i. sample_env" Map.empty]
  obtain s where s: "main [''./parallel''] (\<lambda>i. sample_env) Map.empty = Exits EXIT_FAILURE s"
    by blast
  have c: "main [''./parallel''] (\<lambda>i. sample_env) Map.empty =
       Exits 1 \<lparr>pids = replicate 100 0, numChildren = 0, numTerminated = 0, files = Map.empty,
                 trace = [Printf ''Starting program. Number of files provided: 0\<newline>'',
                          Printf ''Error: No input files provided.\<newline>'']\<rparr>"
    using s by (simp add: main_def main_start_def log_def EXIT_FAILURE_def MAX_FILES_def n)
  from bad_argument_count_exits_first [OF b, of "\<lambda>i. sample_env" Map.empty]
  obtain t where t: "main (''./parallel'' # replicate 101 ''f.txt'') (\<lambda>i. sample_env) Map.empty
      = Exits EXIT_FAILURE t"
    by blast
  then have d: "exit_status (main (''./parallel'' # replicate 101 ''f.txt'') (\<lambda>i. sample_env)
      Map.empty) = Some 1"
    by (simp add: EXIT_FAILURE_def)
  have e: "trace (state_of (main (''./parallel'' # replicate 101 ''f.txt'') (\<lambda>i. sample_env)
         Map.empty)) =
       [Printf ''Starting program. Number of files provided: 101\<newline>'',
        Printf ''Error: Too many input files provided. Maximum allowed is 100.\<newline>'']"
    by (simp add: main_def main_start_def log_def EXIT_FAILURE_def MAX_FILES_def n)
  show ?thesis using c d e by (simp add: MAX_FILES_def)
qed

text \<open>
  Claim C7 at the arguments \<open>SIG f.txt\<close>, for the child forked for \<open>SIG\<close> when the
  \<open>SIGINT\<close> does not end it. The claim has this child go from waiting to terminated,
  start no further process and make no pipe. After its \<open>sleep(10)\<close> the child runs the
  next iteration of the loop of line 141 instead: it makes pipe 1, forks a child of its own
  for \<open>f.txt\<close>, and enters the wait loop.
\<close>

theorem SIG_worker_goes_on_with_the_loop:
  "main [''./parallel'', ''SIG'', ''f.txt''] timeout_env Map.empty =
     Continues
       \<lparr>pids = (replicate 100 0)[1 := 4250], numChildren = 1, numTerminated = 0,
        files = Map.empty,
        trace =
          [Printf ''Child process started for SIG\<newline>'', Close_read 0,
           Printf ''Child process (PID: 4242) waiting for signal.\<newline>'', Sleep 10,
           Printf ''Processing file/command f.txt...\<newline>'', Pipe 1, Fork,
           Printf ''Parent process created child with PID: 4250 for f.txt\<newline>'',
           Close_write 1,
           Printf ''Waiting for all child processes to terminate...\<newline>'']\<rparr>"
proof -
  have n: "show_int 2 = ''2''" "show_int 4242 = ''4242''" "show_int 4250 = ''4250''"
    by (simp_all add: show_int_def show_nat.simps)
  show ?thesis
    by (simp add: main_def main_start_def timeout_env_def log_def MAX_FILES_def n
        parent_close_def parent_record_def parent_count_def parent_kill_def)
qed




end
